theory Spec2Isabelle
  imports Main "HOL-Library.Word"
begin

unbundle bit_operations_syntax

section \<open>Strings and the built-in string operations\<close>

text \<open>
  A source string is a \<^typ>\<open>string\<close>: a list of code units, one \<^typ>\<open>char\<close> each (the
  parser works on the byte range; \<open>charCodeAt\<close> is \<^term>\<open>of_char\<close>). The built-ins the source
  calls on strings (\<open>indexOf\<close>, \<open>lastIndexOf\<close>, \<open>slice\<close>, \<open>endsWith\<close>,
  \<open>toLowerCase\<close>) are modelled by what they return; \<open>indexOf\<close> and \<open>lastIndexOf\<close> return
  \<open>-1\<close> when the separator does not occur, so their result is an \<^typ>\<open>int\<close>.
  \<open>toLowerCase\<close> lowers the ASCII capitals, the only capitals a scheme can hold.
\<close>

definition charCode :: "char \<Rightarrow> nat" where
  "charCode c = of_char c"

text \<open>\<open>s.slice(a, b)\<close> and \<open>s.slice(a)\<close> for indices that are not negative.\<close>

definition slice :: "string \<Rightarrow> nat \<Rightarrow> nat \<Rightarrow> string" where
  "slice s a b = take (b - a) (drop a s)"

definition slice_from :: "string \<Rightarrow> nat \<Rightarrow> string" where
  "slice_from s a = drop a s"

text \<open>\<open>strings.hasPrefix\<close> of the source.\<close>

definition hasPrefix :: "string \<Rightarrow> string \<Rightarrow> bool" where
  "hasPrefix s pre \<longleftrightarrow> length s \<ge> length pre \<and> slice s 0 (length pre) = pre"

fun indexOf :: "string \<Rightarrow> string \<Rightarrow> int" where
  "indexOf [] sep = (if sep = [] then 0 else - 1)"
| "indexOf (c # cs) sep =
     (if hasPrefix (c # cs) sep then 0
      else (let i = indexOf cs sep in if i < 0 then - 1 else i + 1))"

fun lastIndexOf :: "string \<Rightarrow> string \<Rightarrow> int" where
  "lastIndexOf [] sep = (if sep = [] then 0 else - 1)"
| "lastIndexOf (c # cs) sep =
     (let i = lastIndexOf cs sep in
      if 0 \<le> i then i + 1
      else if hasPrefix (c # cs) sep then 0 else - 1)"

definition endsWith :: "string \<Rightarrow> string \<Rightarrow> bool" where
  "endsWith s suf \<longleftrightarrow>
     length s \<ge> length suf \<and> slice_from s (length s - length suf) = suf"

definition lowerChar :: "char \<Rightarrow> char" where
  "lowerChar c =
     (if charCode (CHR ''A'') \<le> charCode c \<and> charCode c \<le> charCode (CHR ''Z'')
      then char_of (charCode c + 32) else c)"

definition toLowerCase :: "string \<Rightarrow> string" where
  "toLowerCase s = map lowerChar s"

text \<open>The result of \<open>strings.cut\<close>.\<close>

record cut_result =
  before :: string
  after :: string
  found :: bool

definition strings_cut :: "string \<Rightarrow> string \<Rightarrow> cut_result" where
  "strings_cut s sep =
     (let i = indexOf s sep in
      if i \<ge> 0 then
        \<lparr>before = slice s 0 (nat i),
         after = slice_from s (nat i + length sep),
         found = True\<rparr>
      else \<lparr>before = s, after = [], found = False\<rparr>)"

text \<open>
  \<open>strings.count\<close> is \<open>s.split(c).length - 1\<close>: \<open>split\<close> cuts at the occurrences of a
  separator that is not empty from left to right, without overlap, and cuts an empty separator
  between any two code units.
\<close>

function split_pieces :: "string \<Rightarrow> string \<Rightarrow> nat" where
  "split_pieces s sep =
     (if sep = [] \<or> s = [] then 1
      else if hasPrefix s sep then 1 + split_pieces (drop (length sep) s) sep
      else split_pieces (tl s) sep)"
  by pat_completeness auto
termination
  by (relation "measure (\<lambda>(s, sep). length s)") auto

definition strings_count :: "string \<Rightarrow> string \<Rightarrow> int" where
  "strings_count s c =
     (if c = [] then int (length s) - 1 else int (split_pieces s c) - 1)"

section \<open>Errors and results\<close>

text \<open>
  A \<open>Result<T>\<close> is an error or a value: a sum type with the error on the left. The
  source builds its errors in five ways: the object \<open>{name, message}\<close>, \<open>InvalidHostError\<close>,
  the formatted \<open>invalid port ... after host\<close>, \<open>errors.New\<close>, and the wrapper
  \<open>Error{op, url, err}\<close> of the entry point.
\<close>

datatype err =
    NamedError (name: string) (message: string)
  | InvalidHostError string
  | InvalidPortErrorf string
  | ErrorsNew string
  | OpError string string err

record Scheme =
  Scheme :: string
  Path :: string

section \<open>Control characters\<close>

function stringContainsCTLByte_loop :: "string \<Rightarrow> nat \<Rightarrow> bool" where
  "stringContainsCTLByte_loop s i =
     (if i < length s then
        (let b = charCode (s ! i) in
         if b < 0x20 \<or> b = 0x7f then True
         else stringContainsCTLByte_loop s (i + 1))
      else False)"
  by pat_completeness auto
termination
  by (relation "measure (\<lambda>(s, i). length s - i)") auto

definition stringContainsCTLByte :: "string \<Rightarrow> bool" where
  "stringContainsCTLByte s = stringContainsCTLByte_loop s 0"

section \<open>Scheme extraction\<close>

text \<open>
  The loop of \<open>getScheme\<close>, with its branches in the order of the source: the outer test is
  "the code unit is not an ASCII letter"; the colon test and the final \<open>else\<close> hang on the
  outer \<open>else\<close>, that is, on a code unit that is a letter.
\<close>

definition isLetter :: "nat \<Rightarrow> bool" where
  "isLetter c \<longleftrightarrow>
     charCode (CHR ''a'') \<le> c \<and> c \<le> charCode (CHR ''z'') \<or>
     charCode (CHR ''A'') \<le> c \<and> c \<le> charCode (CHR ''Z'')"

definition isSchemeTail :: "nat \<Rightarrow> bool" where
  "isSchemeTail c \<longleftrightarrow>
     charCode (CHR ''0'') \<le> c \<and> c \<le> charCode (CHR ''9'') \<or>
     c = charCode (CHR ''+'') \<or> c = charCode (CHR ''-'') \<or> c = charCode (CHR ''.'')"

function getScheme_loop :: "string \<Rightarrow> nat \<Rightarrow> err + Scheme" where
  "getScheme_loop rawURL i =
     (if i < length rawURL then
        (let c = charCode (rawURL ! i) in
         if \<not> isLetter c then
           (if isSchemeTail c then
              (if i = 0 then Inr \<lparr>Scheme.Scheme = [], Scheme.Path = rawURL\<rparr>
               else getScheme_loop rawURL (i + 1))
            else getScheme_loop rawURL (i + 1))
         else if rawURL ! i = CHR '':'' then
           (if i = 0 then Inl (NamedError ''MISSING_SCHEME'' ''missing protocol scheme'')
            else Inr \<lparr>Scheme.Scheme = slice rawURL 0 i,
                      Scheme.Path = slice_from rawURL (i + 1)\<rparr>)
         else Inr \<lparr>Scheme.Scheme = [], Scheme.Path = rawURL\<rparr>)
      else Inr \<lparr>Scheme.Scheme = [], Scheme.Path = rawURL\<rparr>)"
  by pat_completeness auto
termination
  by (relation "measure (\<lambda>(rawURL, i). length rawURL - i)") auto

definition getScheme :: "string \<Rightarrow> err + Scheme" where
  "getScheme rawURL = getScheme_loop rawURL 0"

section \<open>Ports and hexadecimal digits\<close>

function validOptionalPort_loop :: "string \<Rightarrow> nat \<Rightarrow> bool" where
  "validOptionalPort_loop port b =
     (if b < length port then
        (if charCode (port ! b) < charCode (CHR ''0'') \<or>
            charCode (port ! b) > charCode (CHR ''9'')
         then False
         else validOptionalPort_loop port (b + 1))
      else True)"
  by pat_completeness auto
termination
  by (relation "measure (\<lambda>(port, b). length port - b)") auto

definition validOptionalPort :: "string \<Rightarrow> bool" where
  "validOptionalPort port =
     (if port = [] then True
      else if port ! 0 \<noteq> CHR '':'' then False
      else validOptionalPort_loop port 1)"

definition ishex :: "char \<Rightarrow> bool" where
  "ishex c =
     (let v = charCode c in
      if v \<ge> charCode (CHR ''0'') \<and> v \<le> charCode (CHR ''9'') then True
      else if v \<ge> charCode (CHR ''a'') \<and> v \<le> charCode (CHR ''f'') then True
      else if v \<ge> charCode (CHR ''A'') \<and> v \<le> charCode (CHR ''F'') then True
      else False)"

definition unhex :: "char \<Rightarrow> nat" where
  "unhex c =
     (let v = charCode c in
      if v \<ge> charCode (CHR ''0'') \<and> v \<le> charCode (CHR ''9'') then v - charCode (CHR ''0'')
      else if v \<ge> charCode (CHR ''a'') \<and> v \<le> charCode (CHR ''f'')
        then v - charCode (CHR ''a'') + 10
      else if v \<ge> charCode (CHR ''A'') \<and> v \<le> charCode (CHR ''F'')
        then v - charCode (CHR ''A'') + 10
      else 0)"

section \<open>What the source uses and does not define\<close>

text \<open>
  Modelled from the spec: the decoding contexts. The source compares its \<open>mode\<close> argument
  with \<open>encodeHost\<close>, \<open>encodeZone\<close>, \<open>encodeUserPassword\<close> and \<open>encodeQueryComponent\<close>,
  constants that no source file declares; the spec lists the contexts as a closed enumeration.
\<close>

datatype encoding =
    encodePath
  | encodePathSegment
  | encodeHost
  | encodeZone
  | encodeUserPassword
  | encodeQueryComponent
  | encodeFragment

text \<open>
  The source calls three functions that no source file defines: \<open>shouldEscape\<close> (the
  per-context classifier of bytes), \<open>validUserinfo\<close> (the character-class check of a
  userinfo) and, through \<open>setPath\<close> and \<open>setFragment\<close>, the default re-encoding
  \<open>escape\<close>. They are parameters of the model: every function below that reaches one of them
  takes the three as a record, and every general theorem holds for all values of the record.
\<close>

record externals =
  shouldEscape :: "char \<Rightarrow> encoding \<Rightarrow> bool"
  validUserinfo :: "string \<Rightarrow> bool"
  escape :: "string \<Rightarrow> encoding \<Rightarrow> string"

section \<open>Percent-decoding\<close>

text \<open>
  \<open>unescape\<close> has two loops. The first counts the \<open>%\<close> and checks them; its \<open>switch\<close> is
  written without \<open>break\<close> and without parentheses, as in the Go original, where a case does
  not fall through: each iteration runs exactly one case. The state of the loop is the index
  \<open>i\<close>, the counter \<open>n\<close> and the flag \<open>hasPlus\<close>. The error of a malformed escape carries
  the text from the \<open>%\<close> on, cut to three code units; the two host errors carry the
  three code units of the escape. The default case is the line of the Go original: \<open>s[i]\<close>
  is the byte at \<open>i\<close>, compared with \<open>0x80\<close> as a number, and its error is
  \<open>InvalidHostError\<close> of that one byte.
\<close>

function unescape_scan ::
  "externals \<Rightarrow> encoding \<Rightarrow> string \<Rightarrow> nat \<Rightarrow> nat \<Rightarrow> bool \<Rightarrow> err + (nat \<times> bool)" where
  "unescape_scan X mode s i n hasPlus =
     (if i < length s then
        (if s ! i = CHR ''%'' then
           (if i + 2 \<ge> length s \<or> \<not> ishex (s ! (i + 1)) \<or> \<not> ishex (s ! (i + 2))
            then Inl (NamedError [] (take 3 (slice_from s i)))
            else if mode = encodeHost \<and> unhex (s ! (i + 1)) < 8 \<and>
                    slice s i (i + 3) \<noteq> ''%25''
            then Inl (NamedError [] (slice s i (i + 3)))
            else if mode = encodeZone \<and>
                    (let v = push_bit 4 (unhex (s ! (i + 1))) OR unhex (s ! (i + 2)) in
                     slice s i (i + 3) \<noteq> ''%25'' \<and> v \<noteq> charCode (CHR '' '') \<and>
                     shouldEscape X (char_of v) encodeHost)
            then Inl (NamedError [] (slice s i (i + 3)))
            else unescape_scan X mode s (i + 3) (n + 1) hasPlus)
         else if s ! i = CHR ''+'' then
           unescape_scan X mode s (i + 1) n (mode = encodeQueryComponent)
         else if (mode = encodeHost \<or> mode = encodeZone) \<and> charCode (s ! i) < 0x80 \<and>
                 shouldEscape X (s ! i) mode
           then Inl (InvalidHostError (slice s i (i + 1)))
         else unescape_scan X mode s (i + 1) n hasPlus)
      else Inr (n, hasPlus))"
  by pat_completeness auto
termination
  by (relation "measure (\<lambda>(X, mode, s, i, n, hasPlus). length s - i)") auto

text \<open>The second loop writes the decoded bytes to \<open>t\<close>.\<close>

function unescape_build :: "encoding \<Rightarrow> string \<Rightarrow> nat \<Rightarrow> string \<Rightarrow> string" where
  "unescape_build mode s i t =
     (if i < length s then
        (if s ! i = CHR ''%'' then
           unescape_build mode s (i + 2 + 1)
             (t @ [char_of (push_bit 4 (unhex (s ! (i + 1))) OR unhex (s ! (i + 2)))])
         else if s ! i = CHR ''+'' then
           (if mode = encodeQueryComponent
            then unescape_build mode s (i + 1) (t @ '' '')
            else unescape_build mode s (i + 1) (t @ ''+''))
         else unescape_build mode s (i + 1) (t @ [s ! i]))
      else t)"
  by pat_completeness auto
termination
  by (relation "measure (\<lambda>(mode, s, i, t). length s - i)") auto

definition unescape :: "externals \<Rightarrow> string \<Rightarrow> encoding \<Rightarrow> err + string" where
  "unescape X s mode =
     (case unescape_scan X mode s 0 0 False of
        Inl e \<Rightarrow> Inl e
      | Inr (n, hasPlus) \<Rightarrow>
          if n = 0 \<and> \<not> hasPlus then Inr s
          else Inr (unescape_build mode s 0 []))"

section \<open>Host and authority\<close>

definition parseHost :: "externals \<Rightarrow> string \<Rightarrow> err + string" where
  "parseHost X host =
     (if hasPrefix host ''['' then
        (let i = lastIndexOf host '']'' in
         if i < 0 then Inl (NamedError ''MISSING_RBRACKET_IN_HOST'' ''missing ']' in host'')
         else
           (let colonPort = slice_from host (nat i + 1) in
            if \<not> validOptionalPort colonPort
            then Inl (NamedError ''INVALID_HOST_PORT''
                        (''invalid port '' @ colonPort @ '' after host''))
            else
              (let zone = indexOf (slice host 0 (nat i)) ''%25'' in
               if zone \<ge> 0 then
                 (case unescape X (slice host 0 (nat zone)) encodeHost of
                    Inl e \<Rightarrow> Inl e
                  | Inr host1 \<Rightarrow>
                 (case unescape X (slice host (nat zone) (nat i)) encodeZone of
                    Inl e \<Rightarrow> Inl e
                  | Inr host2 \<Rightarrow>
                 (case unescape X (slice_from host (nat i)) encodeHost of
                    Inl e \<Rightarrow> Inl e
                  | Inr host3 \<Rightarrow> Inr (host1 @ host2 @ host3))))
               else unescape X host encodeHost)))
      else
        (let i = lastIndexOf host '':'' in
         if i \<noteq> - 1 \<and> \<not> validOptionalPort (slice_from host (nat i))
         then Inl (InvalidPortErrorf (slice_from host (nat i)))
         else unescape X host encodeHost))"

text \<open>The two constructors of a userinfo, \<open>User(name)\<close> and \<open>UserPassword(name, password)\<close>.\<close>

datatype Userinfo = User string | UserPassword string string

definition strings_Contains :: "string \<Rightarrow> string \<Rightarrow> bool" where
  "strings_Contains s sub \<longleftrightarrow> indexOf s sub \<ge> 0"

definition parseAuthority :: "externals \<Rightarrow> string \<Rightarrow> err + (Userinfo option \<times> string)" where
  "parseAuthority X authority =
     (let i = lastIndexOf authority ''@'' in
      case (if i < 0 then parseHost X authority
            else parseHost X (slice_from authority (nat i + 1))) of
        Inl e \<Rightarrow> Inl e
      | Inr host \<Rightarrow>
          if i < 0 then Inr (None, host)
          else
            (let userinfo = slice authority 0 (nat i) in
             if \<not> validUserinfo X userinfo then Inl (ErrorsNew ''net/url: invalid userinfo'')
             else if \<not> strings_Contains userinfo '':'' then
               (case unescape X userinfo encodeUserPassword of
                  Inl e \<Rightarrow> Inl e
                | Inr userinfo' \<Rightarrow> Inr (Some (Userinfo.User userinfo'), host))
             else
               (let c = strings_cut userinfo '':'' in
                case unescape X (before c) encodeUserPassword of
                  Inl e \<Rightarrow> Inl e
                | Inr username \<Rightarrow>
                (case unescape X (after c) encodeUserPassword of
                   Inl e \<Rightarrow> Inl e
                 | Inr password \<Rightarrow> Inr (Some (UserPassword username password), host)))))"

section \<open>The parsed URL\<close>

text \<open>
  Every field of the interface \<open>URL\<close> is optional and \<open>parse\<close> starts from the object with
  no field set, so a field is an option: \<open>None\<close> is a field that was never assigned. The
  interface declares no \<open>User\<close>; the second source file assigns \<open>url.User\<close>, so the record
  has the field.
\<close>

record URL =
  Scheme :: "string option"
  Opaque :: "string option"
  User :: "Userinfo option"
  Host :: "string option"
  Path :: "string option"
  RawPath :: "string option"
  OmitHost :: "bool option"
  ForceQuery :: "bool option"
  RawQuery :: "string option"
  Fragment :: "string option"
  RawFragment :: "string option"

definition emptyURL :: URL where
  "emptyURL =
     \<lparr>URL.Scheme = None, Opaque = None, URL.User = None, Host = None, URL.Path = None,
      RawPath = None, OmitHost = None, ForceQuery = None, RawQuery = None,
      Fragment = None, RawFragment = None\<rparr>"

text \<open>
  How a result is read. \<open>forceQuery\<close> holds when the field was set to true. \<open>rawQuery\<close> is
  the query text: the field when it was assigned, and the empty text when it never was (the
  interface makes every field optional, and the data model of the spec does not tell an
  unset text from an empty one).
\<close>

definition forceQuery :: "URL \<Rightarrow> bool" where
  "forceQuery u \<longleftrightarrow> ForceQuery u = Some True"

definition rawQuery :: "URL \<Rightarrow> string" where
  "rawQuery u = (case RawQuery u of None \<Rightarrow> [] | Some q \<Rightarrow> q)"

text \<open>
  Modelled from the spec: \<open>setPath\<close> and \<open>setFragment\<close>, methods that \<open>parse\<close> and
  \<open>Parse\<close> call and no source file defines. The spec: the text is percent-decoded (Path
  context, Fragment context) into \<open>path\<close> (\<open>fragment\<close>), a decode error is propagated, and
  the raw hint is kept only if the default re-encoding of the decoded form differs from the
  text.
\<close>

definition setPath :: "externals \<Rightarrow> URL \<Rightarrow> string \<Rightarrow> err + URL" where
  "setPath X url p =
     (case unescape X p encodePath of
        Inl e \<Rightarrow> Inl e
      | Inr path \<Rightarrow>
          Inr (url\<lparr>URL.Path := Some path,
                   RawPath := (if escape X path encodePath = p then None else Some p)\<rparr>))"

definition setFragment :: "externals \<Rightarrow> URL \<Rightarrow> string \<Rightarrow> err + URL" where
  "setFragment X url f =
     (case unescape X f encodeFragment of
        Inl e \<Rightarrow> Inl e
      | Inr frag \<Rightarrow>
          Inr (url\<lparr>Fragment := Some frag,
                   RawFragment := (if escape X frag encodeFragment = f then None else Some f)\<rparr>))"

section \<open>The parser\<close>

text \<open>
  \<open>parse\<close> of \<open>src/index.ts\<close>. The local variables \<open>url\<close> and \<open>rest\<close> are threaded
  through the steps: \<open>parse_query\<close> is the split of the query (the \<open>if\<close> on
  \<open>rest.endsWith("?")\<close>), \<open>parse_authority\<close> the authority branch and the \<open>OmitHost\<close>
  branch, and \<open>parse\<close> the function around them; the block on a \<open>rest\<close> that does not
  start with \<open>/\<close> either returns or falls through to the authority branch, which is
  therefore written out after it and after its \<open>else\<close>. In this file the result of
  \<open>parseAuthority\<close> is tested for an error and then dropped: the assignment to \<open>url.User\<close>
  and \<open>url.Host\<close> is commented out.
\<close>

definition parse_query :: "URL \<Rightarrow> string \<Rightarrow> URL \<times> string" where
  "parse_query url rest =
     (if endsWith rest ''?'' \<and> strings_count rest ''?'' = 1
      then (url\<lparr>ForceQuery := Some True\<rparr>, slice rest 0 (length rest - 1))
      else (let cutRes = strings_cut rest ''?'' in
            (url\<lparr>RawQuery := Some (after cutRes)\<rparr>, before cutRes)))"

definition parse_authority :: "externals \<Rightarrow> URL \<Rightarrow> string \<Rightarrow> bool \<Rightarrow> err + (URL \<times> string)" where
  "parse_authority X url rest viaRequest =
     (if (URL.Scheme url \<noteq> Some [] \<or> \<not> viaRequest \<and> \<not> hasPrefix rest ''///'') \<and>
         hasPrefix rest ''//'' then
        (let authority = slice_from rest 2;
             i = indexOf authority ''/'';
             rest' = (if i \<ge> 0 then slice_from authority (nat i) else []);
             authority' = (if i \<ge> 0 then slice authority 0 (nat i) else authority)
         in case parseAuthority X authority' of
              Inl e \<Rightarrow> Inl e
            | Inr authorityRes \<Rightarrow> Inr (url, rest'))
      else if URL.Scheme url \<noteq> Some [] \<and> hasPrefix rest ''/''
        then Inr (url\<lparr>OmitHost := Some True\<rparr>, rest)
      else Inr (url, rest))"

definition parse :: "externals \<Rightarrow> string \<Rightarrow> bool \<Rightarrow> err + URL" where
  "parse X rawURL viaRequest =
     (if stringContainsCTLByte rawURL
      then Inl (NamedError ''INVALID_CTRL_CHARACTER'' ''invalid control character in URL'')
      else if rawURL = [] \<and> viaRequest then Inl (NamedError ''EMPTY_URL'' ''empty url'')
      else if rawURL = ''*'' then Inr (emptyURL\<lparr>URL.Path := Some ''*''\<rparr>)
      else
        (case getScheme rawURL of
           Inl e \<Rightarrow> Inl e
         | Inr decodedScheme \<Rightarrow>
             (let url0 = emptyURL\<lparr>URL.Scheme := Some (toLowerCase (Scheme.Scheme decodedScheme))\<rparr>;
                  (url, rest) = parse_query url0 (Scheme.Path decodedScheme)
              in
                if \<not> (length rest > 0 \<and> rest ! 0 = CHR ''/'') then
                  (if URL.Scheme url \<noteq> Some [] then Inr (url\<lparr>Opaque := Some rest\<rparr>)
                   else if viaRequest
                   then Inl (NamedError ''INVALID_REQUEST_URI'' ''invalid URI for request'')
                   else if indexOf (before (strings_cut rest ''/'')) '':'' \<noteq> - 1
                   then Inl (NamedError ''PATH_UNEXPECTED_COLON''
                               ''first path segment in URL cannot contain colon'')
                   else
                     (case parse_authority X url rest viaRequest of
                        Inl e \<Rightarrow> Inl e
                      | Inr (url', rest') \<Rightarrow> setPath X url' rest'))
                else
                  (case parse_authority X url rest viaRequest of
                     Inl e \<Rightarrow> Inl e
                   | Inr (url', rest') \<Rightarrow> setPath X url' rest'))))"

text \<open>
  \<open>parse\<close> of the second source file (\<open>src/unnamed/part_000\<close>): the same text, except that
  the authority branch assigns the result of \<open>parseAuthority\<close> to \<open>url.User\<close> and
  \<open>url.Host\<close>. That file defines no \<open>parseAuthority\<close> of its own; the one of
  \<open>src/index.ts\<close> is used.
\<close>

definition parse_authority_part_000 ::
  "externals \<Rightarrow> URL \<Rightarrow> string \<Rightarrow> bool \<Rightarrow> err + (URL \<times> string)" where
  "parse_authority_part_000 X url rest viaRequest =
     (if (URL.Scheme url \<noteq> Some [] \<or> \<not> viaRequest \<and> \<not> hasPrefix rest ''///'') \<and>
         hasPrefix rest ''//'' then
        (let authority = slice_from rest 2;
             i = indexOf authority ''/'';
             rest' = (if i \<ge> 0 then slice_from authority (nat i) else []);
             authority' = (if i \<ge> 0 then slice authority 0 (nat i) else authority)
         in case parseAuthority X authority' of
              Inl e \<Rightarrow> Inl e
            | Inr (user, host) \<Rightarrow> Inr (url\<lparr>URL.User := user, Host := Some host\<rparr>, rest'))
      else if URL.Scheme url \<noteq> Some [] \<and> hasPrefix rest ''/''
        then Inr (url\<lparr>OmitHost := Some True\<rparr>, rest)
      else Inr (url, rest))"

definition parse_part_000 :: "externals \<Rightarrow> string \<Rightarrow> bool \<Rightarrow> err + URL" where
  "parse_part_000 X rawURL viaRequest =
     (if stringContainsCTLByte rawURL
      then Inl (NamedError ''INVALID_CTRL_CHARACTER'' ''invalid control character in URL'')
      else if rawURL = [] \<and> viaRequest then Inl (NamedError ''EMPTY_URL'' ''empty url'')
      else if rawURL = ''*'' then Inr (emptyURL\<lparr>URL.Path := Some ''*''\<rparr>)
      else
        (case getScheme rawURL of
           Inl e \<Rightarrow> Inl e
         | Inr decodedScheme \<Rightarrow>
             (let url0 = emptyURL\<lparr>URL.Scheme := Some (toLowerCase (Scheme.Scheme decodedScheme))\<rparr>;
                  (url, rest) = parse_query url0 (Scheme.Path decodedScheme)
              in
                if \<not> (length rest > 0 \<and> rest ! 0 = CHR ''/'') then
                  (if URL.Scheme url \<noteq> Some [] then Inr (url\<lparr>Opaque := Some rest\<rparr>)
                   else if viaRequest
                   then Inl (NamedError ''INVALID_REQUEST_URI'' ''invalid URI for request'')
                   else if indexOf (before (strings_cut rest ''/'')) '':'' \<noteq> - 1
                   then Inl (NamedError ''PATH_UNEXPECTED_COLON''
                               ''first path segment in URL cannot contain colon'')
                   else
                     (case parse_authority_part_000 X url rest viaRequest of
                        Inl e \<Rightarrow> Inl e
                      | Inr (url', rest') \<Rightarrow> setPath X url' rest'))
                else
                  (case parse_authority_part_000 X url rest viaRequest of
                     Inl e \<Rightarrow> Inl e
                   | Inr (url', rest') \<Rightarrow> setPath X url' rest'))))"

text \<open>
  The entry point. It cuts the input at the first \<open>#\<close>, parses what comes before it with
  \<open>viaRequest = false\<close>, and wraps an error with the operation and the text; the names \<open>u\<close>
  and \<open>frag\<close> of its body are the two halves of the cut.
\<close>

definition Parse :: "externals \<Rightarrow> string \<Rightarrow> err + URL" where
  "Parse X rawURL =
     (let cutRes = strings_cut rawURL ''#'' in
      case parse X (before cutRes) False of
        Inl e \<Rightarrow> Inl (OpError ''parse'' (before cutRes) e)
      | Inr url \<Rightarrow>
          if after cutRes = [] then Inr url
          else (case setFragment X url (after cutRes) of
                  Inl e \<Rightarrow> Inl (OpError ''parse'' rawURL e)
                | Inr url' \<Rightarrow> Inr url'))"

section \<open>A value of the parameters\<close>

text \<open>
  Modelled from the spec: one classifier, one re-encoding and one userinfo check, to run the
  parser on concrete inputs. The spec gives the rule of each context and, for what it
  leaves out, refers to the reserved and unreserved sets of RFC 3986: letters and digits are
  never escaped; in a host and in a zone the sub-delimiters and \<open>: [ ] < > "\<close> are legal
  unescaped; the marks \<open>- _ . ~\<close> are never escaped; a reserved character is escaped or not
  by the context; every other byte is escaped. The re-encoding writes \<open>%XX\<close> with capital
  hexadecimal digits for a byte the classifier flags, and \<open>+\<close> for a space in a query
  component.
\<close>

definition isAlnum :: "char \<Rightarrow> bool" where
  "isAlnum c \<longleftrightarrow>
     isLetter (charCode c) \<or>
     charCode (CHR ''0'') \<le> charCode c \<and> charCode c \<le> charCode (CHR ''9'')"

definition std_shouldEscape :: "char \<Rightarrow> encoding \<Rightarrow> bool" where
  "std_shouldEscape c mode =
     (if isAlnum c then False
      else if (mode = encodeHost \<or> mode = encodeZone) \<and>
              c \<in> set (''!$&()*+,;=:[]<>'' @ [CHR 0x22, CHR 0x27]) then False
      else if c \<in> set ''-_.~'' then False
      else if c \<in> set ''$&+,/:;=?@'' then
        (case mode of
           encodePath \<Rightarrow> c = CHR ''?''
         | encodePathSegment \<Rightarrow> c \<in> set ''/;,?''
         | encodeUserPassword \<Rightarrow> c \<in> set ''@/?:''
         | encodeQueryComponent \<Rightarrow> True
         | encodeFragment \<Rightarrow> False
         | _ \<Rightarrow> True)
      else if mode = encodeFragment \<and> c \<in> set ''!()*'' then False
      else True)"

definition upperhex :: "nat \<Rightarrow> char" where
  "upperhex d = ''0123456789ABCDEF'' ! d"

fun std_escape :: "string \<Rightarrow> encoding \<Rightarrow> string" where
  "std_escape [] mode = []"
| "std_escape (c # cs) mode =
     (if std_shouldEscape c mode then
        (if c = CHR '' '' \<and> mode = encodeQueryComponent then CHR ''+'' # std_escape cs mode
         else CHR ''%'' # upperhex (drop_bit 4 (charCode c)) #
              upperhex (charCode c AND 15) # std_escape cs mode)
      else c # std_escape cs mode)"

definition std_validUserinfo :: "string \<Rightarrow> bool" where
  "std_validUserinfo s = list_all (\<lambda>c. isAlnum c \<or> c \<in> set (''-._:~!$&()*+,;=%@'' @ [CHR 0x27])) s"

definition std :: externals where
  "std = \<lparr>shouldEscape = std_shouldEscape, validUserinfo = std_validUserinfo,
          escape = std_escape\<rparr>"

section \<open>Properties of scheme extraction\<close>

declare getScheme_loop.simps [simp del]
declare stringContainsCTLByte_loop.simps [simp del]
declare split_pieces.simps [simp del]

lemma getScheme_loop_no_scheme:
  "getScheme_loop rawURL i = Inr \<lparr>Scheme.Scheme = [], Scheme.Path = rawURL\<rparr>"
proof (induction rawURL i rule: getScheme_loop.induct)
  case (1 rawURL i)
  show ?case
  proof (cases "i < length rawURL")
    case False
    then show ?thesis by (subst getScheme_loop.simps) simp
  next
    case True
    note inb = this
    show ?thesis
    proof (cases "isLetter (charCode (rawURL ! i))")
      case True
      then have "rawURL ! i \<noteq> CHR '':''"
        by (auto simp: isLetter_def charCode_def)
      with True inb show ?thesis
        by (subst getScheme_loop.simps) (simp add: Let_def)
    next
      case False
      with inb "1.IH" show ?thesis
        by (subst getScheme_loop.simps) (simp add: Let_def)
    qed
  qed
qed

lemma getScheme_no_scheme:
  "getScheme rawURL = Inr \<lparr>Scheme.Scheme = [], Scheme.Path = rawURL\<rparr>"
  by (simp add: getScheme_def getScheme_loop_no_scheme)

text \<open>
  C9. For every input string \<open>s\<close>, \<open>getScheme\<close> returns the empty scheme with \<open>s\<close> unchanged as
  the remainder, and so does the loop from every index \<open>i\<close> it can stand at: no input reaches
  the branch that returns a scheme that is not empty, and none reaches the \<open>MISSING_SCHEME\<close>
  error, because the colon test is made only on a code unit that is an ASCII letter.
\<close>

theorem getScheme_always_empty_scheme:
  "getScheme s = Inr \<lparr>Scheme.Scheme = [], Scheme.Path = s\<rparr> \<and>
   getScheme_loop s i = Inr \<lparr>Scheme.Scheme = [], Scheme.Path = s\<rparr>"
  by (simp add: getScheme_def getScheme_loop_no_scheme)

text \<open>
  C2. The claim: on \<open>scheme:rest\<close> with a scheme of the grammar, \<open>getScheme\<close> returns the
  scheme and the text after the colon, and a colon at position 0 is the \<open>MISSING_SCHEME\<close>
  error. The code, run on \<open>http:x\<close> and on \<open>:x\<close>, returns the empty scheme and the whole
  input both times.
\<close>

theorem getScheme_drops_scheme:
  "getScheme ''http:x'' = Inr \<lparr>Scheme.Scheme = [], Scheme.Path = ''http:x''\<rparr> \<and>
   getScheme '':x'' = Inr \<lparr>Scheme.Scheme = [], Scheme.Path = '':x''\<rparr>"
  by code_simp

section \<open>Properties of the parser on concrete inputs\<close>

text \<open>
  C1. The claim: \<open>Parse("http://example.com/a?b")\<close> succeeds with scheme \<open>http\<close>, host
  \<open>example.com\<close>, path \<open>/a\<close>, rawQuery \<open>b\<close>. The code, for every value of the
  parameters, returns the error \<open>PATH_UNEXPECTED_COLON\<close>: no scheme is extracted, so the
  first segment of the remainder is \<open>http:\<close>.
\<close>

theorem Parse_http_example_fails:
  "Parse X ''http://example.com/a?b'' =
     Inl (OpError ''parse'' ''http://example.com/a?b''
            (NamedError ''PATH_UNEXPECTED_COLON''
               ''first path segment in URL cannot contain colon''))"
  by code_simp

section \<open>The string operations on a separator of one code unit\<close>

lemma hasPrefix_Cons_single: "hasPrefix (c # cs) [d] \<longleftrightarrow> c = d"
  by (simp add: hasPrefix_def slice_def)

lemma hasPrefix_Nil_single: "\<not> hasPrefix [] [d]"
  by (simp add: hasPrefix_def)

lemma hasPrefix_single: "hasPrefix s [d] \<longleftrightarrow> s \<noteq> [] \<and> hd s = d"
  by (cases s) (simp_all add: hasPrefix_Cons_single hasPrefix_Nil_single)

lemma hasPrefix_append: "hasPrefix (pre @ s) pre"
  by (simp add: hasPrefix_def slice_def)

lemma hasPrefix_iff: "hasPrefix s pre \<longleftrightarrow> (\<exists>t. s = pre @ t)"
proof
  assume "hasPrefix s pre"
  then have "take (length pre) s = pre" by (simp add: hasPrefix_def slice_def)
  then have "s = pre @ drop (length pre) s" by (metis append_take_drop_id)
  then show "\<exists>t. s = pre @ t" ..
next
  assume "\<exists>t. s = pre @ t"
  then show "hasPrefix s pre" by (auto simp: hasPrefix_append)
qed

lemma indexOf_char:
  "indexOf s [c] = (if c \<in> set s then int (length (takeWhile (\<lambda>x. x \<noteq> c) s)) else - 1)"
  by (induction s) (auto simp: hasPrefix_Cons_single Let_def)

lemma lastIndexOf_char_notin: "c \<notin> set s \<Longrightarrow> lastIndexOf s [c] = - 1"
  by (induction s) (auto simp: hasPrefix_Cons_single Let_def)

lemma lastIndexOf_char_nonneg: "c \<in> set s \<Longrightarrow> 0 \<le> lastIndexOf s [c]"
  by (induction s) (auto simp: hasPrefix_Cons_single Let_def)

lemma lastIndexOf_char_split:
  "c \<notin> set b \<Longrightarrow> lastIndexOf (a @ c # b) [c] = int (length a)"
  by (induction a) (auto simp: hasPrefix_Cons_single Let_def lastIndexOf_char_notin)

lemma takeWhile_neq_split: "c \<notin> set a \<Longrightarrow> takeWhile (\<lambda>x. x \<noteq> c) (a @ c # b) = a"
  by (induction a) auto

lemma dropWhile_neq_split: "c \<notin> set a \<Longrightarrow> dropWhile (\<lambda>x. x \<noteq> c) (a @ c # b) = c # b"
  by (induction a) auto

lemma takeWhile_neq_all: "c \<notin> set s \<Longrightarrow> takeWhile (\<lambda>x. x \<noteq> c) s = s"
  by (induction s) auto

lemma dropWhile_neq_all: "c \<notin> set s \<Longrightarrow> dropWhile (\<lambda>x. x \<noteq> c) s = []"
  by (induction s) auto

lemma strings_cut_char_before:
  "before (strings_cut s [c]) = takeWhile (\<lambda>x. x \<noteq> c) s"
proof (cases "c \<in> set s")
  case True
  have "take (length (takeWhile (\<lambda>x. x \<noteq> c) s)) s = takeWhile (\<lambda>x. x \<noteq> c) s"
    by (rule takeWhile_eq_take [symmetric])
  with True show ?thesis
    by (simp add: strings_cut_def indexOf_char Let_def slice_def)
next
  case False
  then show ?thesis
    by (simp add: strings_cut_def indexOf_char Let_def takeWhile_neq_all)
qed

lemma strings_cut_char_after:
  "after (strings_cut s [c]) = tl (dropWhile (\<lambda>x. x \<noteq> c) s)"
proof (cases "c \<in> set s")
  case True
  have "drop (length (takeWhile (\<lambda>x. x \<noteq> c) s)) s = dropWhile (\<lambda>x. x \<noteq> c) s"
    by (rule dropWhile_eq_drop [symmetric])
  then have "drop (Suc (length (takeWhile (\<lambda>x. x \<noteq> c) s))) s = tl (dropWhile (\<lambda>x. x \<noteq> c) s)"
    by (metis drop_Suc tl_drop)
  with True show ?thesis
    by (simp add: strings_cut_def indexOf_char Let_def slice_from_def)
next
  case False
  then show ?thesis
    by (simp add: strings_cut_def indexOf_char Let_def dropWhile_neq_all)
qed

lemma strings_cut_char_split:
  "c \<notin> set a \<Longrightarrow> strings_cut (a @ c # b) [c] = \<lparr>before = a, after = b, found = True\<rparr>"
  by (simp add: strings_cut_def indexOf_char Let_def slice_def slice_from_def
      takeWhile_neq_split)

lemma strings_cut_char_notin:
  "c \<notin> set s \<Longrightarrow> strings_cut s [c] = \<lparr>before = s, after = [], found = False\<rparr>"
  by (simp add: strings_cut_def indexOf_char Let_def)

lemma split_pieces_char: "split_pieces s [c] = 1 + count_list s c"
proof (induction s)
  case Nil
  then show ?case by (subst split_pieces.simps) simp
next
  case (Cons x xs)
  then show ?case
    by (subst split_pieces.simps) (simp add: hasPrefix_Cons_single)
qed

lemma strings_count_char: "strings_count s [c] = int (count_list s c)"
  by (simp add: strings_count_def split_pieces_char)

lemma endsWith_char: "endsWith s [c] \<longleftrightarrow> s \<noteq> [] \<and> last s = c"
proof (cases s rule: rev_cases)
  case Nil
  then show ?thesis by (simp add: endsWith_def)
next
  case (snoc ys y)
  then show ?thesis by (simp add: endsWith_def slice_from_def)
qed

lemma stringContainsCTLByte_loop_iff:
  "stringContainsCTLByte_loop s i \<longleftrightarrow>
     (\<exists>j. i \<le> j \<and> j < length s \<and> (charCode (s ! j) < 0x20 \<or> charCode (s ! j) = 0x7f))"
proof (induction s i rule: stringContainsCTLByte_loop.induct)
  case (1 s i)
  show ?case
  proof (cases "i < length s")
    case False
    then show ?thesis by (subst stringContainsCTLByte_loop.simps) auto
  next
    case True
    show ?thesis
    proof (cases "charCode (s ! i) < 0x20 \<or> charCode (s ! i) = 0x7f")
      case True
      with \<open>i < length s\<close> show ?thesis
        by (subst stringContainsCTLByte_loop.simps) (auto simp: Let_def)
    next
      case False
      with \<open>i < length s\<close> have "stringContainsCTLByte_loop s i = stringContainsCTLByte_loop s (i + 1)"
        by (subst stringContainsCTLByte_loop.simps) (auto simp: Let_def)
      also have "\<dots> \<longleftrightarrow> (\<exists>j. i + 1 \<le> j \<and> j < length s \<and>
          (charCode (s ! j) < 0x20 \<or> charCode (s ! j) = 0x7f))"
        using "1.IH"[OF \<open>i < length s\<close> refl] False by simp
      also have "\<dots> \<longleftrightarrow> (\<exists>j. i \<le> j \<and> j < length s \<and>
          (charCode (s ! j) < 0x20 \<or> charCode (s ! j) = 0x7f))"
        using False by (metis Suc_eq_plus1 Suc_leD Suc_leI le_neq_implies_less)
      finally show ?thesis .
    qed
  qed
qed

lemma stringContainsCTLByte_iff:
  "stringContainsCTLByte s \<longleftrightarrow> (\<exists>c \<in> set s. charCode c < 0x20 \<or> charCode c = 0x7f)"
proof -
  have "stringContainsCTLByte s \<longleftrightarrow>
      (\<exists>j. j < length s \<and> (charCode (s ! j) < 0x20 \<or> charCode (s ! j) = 0x7f))"
    by (simp add: stringContainsCTLByte_def stringContainsCTLByte_loop_iff)
  also have "\<dots> \<longleftrightarrow> (\<exists>c \<in> set s. charCode c < 0x20 \<or> charCode c = 0x7f)"
    by (metis in_set_conv_nth)
  finally show ?thesis .
qed

section \<open>Which errors each function can return\<close>

declare unescape_scan.simps [simp del]
declare unescape_build.simps [simp del]
declare validOptionalPort_loop.simps [simp del]

lemma unescape_scan_error_name:
  "unescape_scan X mode s i n hasPlus = Inl (NamedError nm msg) \<Longrightarrow> nm = []"
proof (induction "length s - i" arbitrary: i n hasPlus rule: less_induct)
  case less
  have step: "\<And>j n' h'. i < j \<Longrightarrow> i < length s \<Longrightarrow>
      unescape_scan X mode s j n' h' = Inl (NamedError nm msg) \<Longrightarrow> nm = []"
    by (rule less.hyps) (auto intro: diff_less_mono2)
  from less.prems show ?case
    by (subst (asm) unescape_scan.simps) (auto split: if_splits dest: step[rotated 2])
qed

lemma unescape_error_name: "unescape X s mode = Inl (NamedError nm msg) \<Longrightarrow> nm = []"
  by (auto simp: unescape_def split: sum.splits prod.splits if_splits
      dest: unescape_scan_error_name)

lemma parseHost_error_name:
  "parseHost X host = Inl (NamedError nm msg) \<Longrightarrow>
     nm = [] \<or> nm = ''MISSING_RBRACKET_IN_HOST'' \<or> nm = ''INVALID_HOST_PORT''"
  by (auto simp: parseHost_def Let_def split: if_splits sum.splits
      dest: unescape_error_name)

lemma parseAuthority_error_name:
  "parseAuthority X a = Inl (NamedError nm msg) \<Longrightarrow>
     nm = [] \<or> nm = ''MISSING_RBRACKET_IN_HOST'' \<or> nm = ''INVALID_HOST_PORT''"
  by (auto simp: parseAuthority_def Let_def split: if_splits sum.splits
      dest: unescape_error_name parseHost_error_name)

lemma parse_authority_error_name:
  "parse_authority X url rest v = Inl (NamedError nm msg) \<Longrightarrow>
     nm = [] \<or> nm = ''MISSING_RBRACKET_IN_HOST'' \<or> nm = ''INVALID_HOST_PORT''"
  by (auto simp: parse_authority_def Let_def split: if_splits sum.splits
      dest: parseAuthority_error_name)

lemma setPath_error_name: "setPath X url p = Inl (NamedError nm msg) \<Longrightarrow> nm = []"
  by (auto simp: setPath_def split: sum.splits dest: unescape_error_name)

lemma setFragment_error_name: "setFragment X url p = Inl (NamedError nm msg) \<Longrightarrow> nm = []"
  by (auto simp: setFragment_def split: sum.splits dest: unescape_error_name)

lemma parse_query_rest:
  "snd (parse_query url r) = takeWhile (\<lambda>c. c \<noteq> CHR ''?'') r"
proof (cases "endsWith r ''?'' \<and> strings_count r ''?'' = 1")
  case True
  then have ne: "r \<noteq> []" and l: "last r = CHR ''?''" and c: "count_list r (CHR ''?'') = 1"
    by (simp_all add: endsWith_char strings_count_char)
  from ne l have r: "r = butlast r @ [CHR ''?'']" by (metis append_butlast_last_id)
  with c have "count_list (butlast r @ [CHR ''?'']) (CHR ''?'') = 1" by simp
  then have "count_list (butlast r) (CHR ''?'') = 0" by simp
  then have "CHR ''?'' \<notin> set (butlast r)" by (simp add: count_list_0_iff)
  then have "takeWhile (\<lambda>c. c \<noteq> CHR ''?'') (butlast r @ CHR ''?'' # []) = butlast r"
    by (rule takeWhile_neq_split)
  with r have "takeWhile (\<lambda>c. c \<noteq> CHR ''?'') r = butlast r" by simp
  with True show ?thesis
    by (simp add: parse_query_def slice_def butlast_conv_take)
next
  case False
  then show ?thesis
    by (auto simp: parse_query_def Let_def strings_cut_char_before)
qed

lemma parse_query_Scheme: "URL.Scheme (fst (parse_query url r)) = URL.Scheme url"
  by (simp add: parse_query_def Let_def)

lemma parse_colon_iff:
  assumes "\<not> stringContainsCTLByte rawURL"
  shows "parse X rawURL False = Inl (NamedError ''PATH_UNEXPECTED_COLON''
            ''first path segment in URL cannot contain colon'') \<longleftrightarrow>
     (let rest = takeWhile (\<lambda>c. c \<noteq> CHR ''?'') rawURL in
        \<not> hasPrefix rest ''/'' \<and> CHR '':'' \<in> set (takeWhile (\<lambda>c. c \<noteq> CHR ''/'') rest))"
proof (cases "rawURL = ''*''")
  case True
  then show ?thesis using assms by (simp add: parse_def emptyURL_def)
next
  case False
  obtain url rest where pq: "parse_query (emptyURL\<lparr>URL.Scheme := Some []\<rparr>) rawURL = (url, rest)"
    by (cases "parse_query (emptyURL\<lparr>URL.Scheme := Some []\<rparr>) rawURL")
  have rest: "rest = takeWhile (\<lambda>c. c \<noteq> CHR ''?'') rawURL"
    using parse_query_rest[of "emptyURL\<lparr>URL.Scheme := Some []\<rparr>" rawURL] pq by simp
  have sch: "URL.Scheme url = Some []"
    using parse_query_Scheme[of "emptyURL\<lparr>URL.Scheme := Some []\<rparr>" rawURL] pq by simp
  have start: "(length rest > 0 \<and> rest ! 0 = CHR ''/'') \<longleftrightarrow> hasPrefix rest ''/''"
    by (cases rest) (simp_all add: hasPrefix_single)
  have colon: "indexOf (before (strings_cut rest ''/'')) '':'' \<noteq> - 1 \<longleftrightarrow>
      CHR '':'' \<in> set (takeWhile (\<lambda>c. c \<noteq> CHR ''/'') rest)"
    by (simp add: strings_cut_char_before indexOf_char)
  have tail: "(case parse_authority X url rest False of Inl e \<Rightarrow> Inl e
        | Inr (url', rest') \<Rightarrow> setPath X url' rest') \<noteq> Inl (NamedError ''PATH_UNEXPECTED_COLON''
            ''first path segment in URL cannot contain colon'')"
    by (auto simp: split: sum.splits prod.splits
        dest: parse_authority_error_name setPath_error_name)
  have nocolon: "hasPrefix rest ''/'' \<Longrightarrow> CHR '':'' \<notin> set (takeWhile (\<lambda>c. c \<noteq> CHR ''/'') rest)"
    by (cases rest) (auto simp: hasPrefix_single)
  show ?thesis
  proof (cases "hasPrefix rest ''/''")
    case True
    with assms False pq sch start tail rest nocolon show ?thesis
      by (simp add: parse_def getScheme_no_scheme toLowerCase_def Let_def)
  next
    case nopre: False
    show ?thesis
    proof (cases "CHR '':'' \<in> set (takeWhile (\<lambda>c. c \<noteq> CHR ''/'') rest)")
      case True
      with assms False pq sch start colon nopre rest show ?thesis
        by (simp add: parse_def getScheme_no_scheme toLowerCase_def Let_def)
    next
      case False
      with assms \<open>rawURL \<noteq> ''*''\<close> pq sch start colon nopre rest tail show ?thesis
        by (simp add: parse_def getScheme_no_scheme toLowerCase_def Let_def)
    qed
  qed
qed

lemma parse_not_ctl_error:
  assumes "\<not> stringContainsCTLByte s"
  shows "parse X s v \<noteq> Inl (NamedError ''INVALID_CTRL_CHARACTER'' msg)"
proof -
  have tail: "\<And>url rest. (case parse_authority X url rest v of Inl e \<Rightarrow> Inl e
        | Inr (url', rest') \<Rightarrow> setPath X url' rest') \<noteq>
        Inl (NamedError ''INVALID_CTRL_CHARACTER'' msg)"
    by (auto split: sum.splits prod.splits
        dest: parse_authority_error_name setPath_error_name)
  show ?thesis
    using assms tail
    by (auto simp: parse_def getScheme_no_scheme Let_def split: if_splits prod.splits)
qed

lemma parse_ctl_iff:
  "parse X s v = Inl (NamedError ''INVALID_CTRL_CHARACTER'' ''invalid control character in URL'')
     \<longleftrightarrow> stringContainsCTLByte s"
  using parse_not_ctl_error[of s X v] by (auto simp: parse_def)

section \<open>Control characters in the input\<close>

text \<open>
  C5, as the code has it. \<open>Parse\<close> cuts the input at the first \<open>#\<close> before anything is
  checked, and \<open>parse\<close> looks for control bytes in what comes before the cut only. So
  \<open>Parse\<close> returns the control-character error (wrapped with the operation and the text
  before the \<open>#\<close>) exactly when a byte below \<open>0x20\<close> or equal to \<open>0x7F\<close> stands
  before the first \<open>#\<close>, anywhere in the input when it has no \<open>#\<close>; a control byte after the
  first \<open>#\<close> does not produce it.
\<close>

theorem Parse_control_character:
  "Parse X rawURL =
     Inl (OpError ''parse'' (takeWhile (\<lambda>c. c \<noteq> CHR ''#'') rawURL)
            (NamedError ''INVALID_CTRL_CHARACTER'' ''invalid control character in URL''))
   \<longleftrightarrow> (\<exists>c \<in> set (takeWhile (\<lambda>c. c \<noteq> CHR ''#'') rawURL).
          charCode c < 0x20 \<or> charCode c = 0x7f)"
proof -
  let ?u = "takeWhile (\<lambda>c. c \<noteq> CHR ''#'') rawURL"
  let ?e = "NamedError ''INVALID_CTRL_CHARACTER'' ''invalid control character in URL''"
  have u: "before (strings_cut rawURL ''#'') = ?u" by (rule strings_cut_char_before)
  have "Parse X rawURL = Inl (OpError ''parse'' ?u ?e) \<longleftrightarrow> parse X ?u False = Inl ?e"
    by (auto simp: Parse_def Let_def u split: sum.splits if_splits
        dest: setFragment_error_name)
  then show ?thesis by (simp add: parse_ctl_iff stringContainsCTLByte_iff)
qed

text \<open>The theorem at \<open>/a\<close>, the byte \<open>0x01\<close>, \<open>#b\<close>: the control byte stands before the \<open>#\<close>.\<close>

theorem Parse_control_character_witness:
  "Parse std (''/a'' @ [CHR 0x01] @ ''#b'') =
     Inl (OpError ''parse'' (''/a'' @ [CHR 0x01])
            (NamedError ''INVALID_CTRL_CHARACTER'' ''invalid control character in URL''))"
  using Parse_control_character [of std "''/a'' @ [CHR 0x01] @ ''#b''"]
  by (simp add: charCode_def)

text \<open>
  The claim as stated (a control byte anywhere, also after a \<open>#\<close>, gives the error) fails at
  \<open>/a#\<close> followed by the byte \<open>0x01\<close>: \<open>Parse\<close> succeeds, with the byte in the fragment.
\<close>

theorem Parse_control_character_counterexample:
  "Parse std (''/a#'' @ [CHR 0x01]) =
     Inr \<lparr>URL.Scheme = Some [], Opaque = None, URL.User = None, Host = None,
          URL.Path = Some ''/a'', RawPath = None, OmitHost = None,
          ForceQuery = None, RawQuery = Some [], Fragment = Some [CHR 0x01],
          RawFragment = Some [CHR 0x01]\<rparr>"
  by code_simp

section \<open>A colon in the first path segment\<close>

text \<open>
  C7, as the code has it. \<open>Parse("cache_object:foo/bar")\<close> returns the error
  \<open>PATH_UNEXPECTED_COLON\<close> (the comment in \<open>parse\<close> names this very input as the malformed
  scheme the check is there for). And for every input without a control byte, \<open>parse\<close> with
  \<open>viaRequest = false\<close> returns that error exactly when no scheme was parsed, the remainder
  (the text up to the first \<open>?\<close>) does not start with \<open>/\<close>, and its first
  \<open>/\<close>-delimited segment contains a \<open>:\<close>.
\<close>

theorem parse_first_segment_colon:
  "Parse X ''cache_object:foo/bar'' =
     Inl (OpError ''parse'' ''cache_object:foo/bar''
            (NamedError ''PATH_UNEXPECTED_COLON''
               ''first path segment in URL cannot contain colon'')) \<and>
   (\<not> stringContainsCTLByte rawURL \<longrightarrow>
      (parse X rawURL False =
         Inl (NamedError ''PATH_UNEXPECTED_COLON''
                ''first path segment in URL cannot contain colon'')
       \<longleftrightarrow>
       (\<exists>sch. getScheme rawURL = Inr sch \<and> Scheme.Scheme sch = [] \<and>
          (let rest = takeWhile (\<lambda>c. c \<noteq> CHR ''?'') (Scheme.Path sch) in
             \<not> hasPrefix rest ''/'' \<and>
             CHR '':'' \<in> set (takeWhile (\<lambda>c. c \<noteq> CHR ''/'') rest)))))"
proof
  show "Parse X ''cache_object:foo/bar'' =
     Inl (OpError ''parse'' ''cache_object:foo/bar''
            (NamedError ''PATH_UNEXPECTED_COLON''
               ''first path segment in URL cannot contain colon''))"
    by code_simp
next
  show "\<not> stringContainsCTLByte rawURL \<longrightarrow>
      (parse X rawURL False =
         Inl (NamedError ''PATH_UNEXPECTED_COLON''
                ''first path segment in URL cannot contain colon'')
       \<longleftrightarrow>
       (\<exists>sch. getScheme rawURL = Inr sch \<and> Scheme.Scheme sch = [] \<and>
          (let rest = takeWhile (\<lambda>c. c \<noteq> CHR ''?'') (Scheme.Path sch) in
             \<not> hasPrefix rest ''/'' \<and>
             CHR '':'' \<in> set (takeWhile (\<lambda>c. c \<noteq> CHR ''/'') rest))))"
    by (simp add: parse_colon_iff getScheme_no_scheme)
qed

text \<open>The theorem at \<open>a:b/c?d\<close>, an input without control bytes.\<close>

theorem parse_first_segment_colon_witness:
  "\<not> stringContainsCTLByte ''a:b/c?d'' \<and>
   getScheme ''a:b/c?d'' = Inr \<lparr>Scheme.Scheme = [], Scheme.Path = ''a:b/c?d''\<rparr> \<and>
   parse std ''a:b/c?d'' False =
     Inl (NamedError ''PATH_UNEXPECTED_COLON''
            ''first path segment in URL cannot contain colon'')"
proof -
  have h: "\<not> stringContainsCTLByte ''a:b/c?d''" by code_simp
  have g: "getScheme ''a:b/c?d'' = Inr \<lparr>Scheme.Scheme = [], Scheme.Path = ''a:b/c?d''\<rparr>"
    by code_simp
  have r: "\<not> hasPrefix ''a:b/c'' ''/''" by code_simp
  from parse_first_segment_colon [of std "''a:b/c?d''"] h g r
  have "parse std ''a:b/c?d'' False =
     Inl (NamedError ''PATH_UNEXPECTED_COLON''
            ''first path segment in URL cannot contain colon'')"
    by simp
  with h g show ?thesis by simp
qed

text \<open>
  The claim as stated (\<open>Parse("cache_object:foo/bar")\<close> does not return an error) fails: it
  returns the colon error.
\<close>

theorem parse_first_segment_colon_counterexample:
  "Parse std ''cache_object:foo/bar'' =
     Inl (OpError ''parse'' ''cache_object:foo/bar''
            (NamedError ''PATH_UNEXPECTED_COLON''
               ''first path segment in URL cannot contain colon''))"
  by code_simp

section \<open>The split of the query\<close>

lemma parse_authority_query_fields:
  "parse_authority X url rest v = Inr (url', rest') \<Longrightarrow>
     ForceQuery url' = ForceQuery url \<and> RawQuery url' = RawQuery url"
  by (auto simp: parse_authority_def Let_def split: if_splits sum.splits)

lemma setPath_query_fields:
  "setPath X url p = Inr url' \<Longrightarrow>
     ForceQuery url' = ForceQuery url \<and> RawQuery url' = RawQuery url"
  by (auto simp: setPath_def split: sum.splits)

lemma parse_query_fields:
  "parse X rawURL v = Inr u \<Longrightarrow> rawURL \<noteq> ''*'' \<Longrightarrow>
     ForceQuery u = ForceQuery (fst (parse_query (emptyURL\<lparr>URL.Scheme := Some []\<rparr>) rawURL)) \<and>
     RawQuery u = RawQuery (fst (parse_query (emptyURL\<lparr>URL.Scheme := Some []\<rparr>) rawURL))"
  by (auto simp: parse_def getScheme_no_scheme toLowerCase_def Let_def
      split: if_splits prod.splits sum.splits
      dest!: parse_authority_query_fields setPath_query_fields)

lemma parse_query_force:
  "CHR ''?'' \<notin> set p \<Longrightarrow> parse_query url (p @ ''?'') = (url\<lparr>ForceQuery := Some True\<rparr>, p)"
  by (simp add: parse_query_def endsWith_char strings_count_char slice_def)

lemma count_list_notin: "c \<notin> set p \<Longrightarrow> count_list p c = 0"
  by (simp add: count_list_0_iff)

lemma parse_query_split:
  assumes "CHR ''?'' \<notin> set p" and "q \<noteq> []"
  shows "parse_query url (p @ CHR ''?'' # q) = (url\<lparr>RawQuery := Some q\<rparr>, p)"
proof -
  let ?s = "p @ CHR ''?'' # q"
  have neg: "\<not> (endsWith ?s ''?'' \<and> strings_count ?s ''?'' = 1)"
  proof
    assume a: "endsWith ?s ''?'' \<and> strings_count ?s ''?'' = 1"
    with assms(2) have "last q = CHR ''?''" by (simp add: endsWith_char)
    with assms(2) have "CHR ''?'' \<in> set q" by (metis last_in_set)
    then have "count_list q (CHR ''?'') \<noteq> 0" by (simp add: count_list_0_iff)
    moreover from a have "count_list q (CHR ''?'') = 0"
      by (simp add: strings_count_char)
    ultimately show False by simp
  qed
  have cut: "strings_cut ?s ''?'' = \<lparr>before = p, after = q, found = True\<rparr>"
    using assms(1) by (rule strings_cut_char_split)
  show ?thesis
    unfolding parse_query_def by (subst if_not_P [OF neg]) (simp add: cut Let_def)
qed

lemma parse_query_none:
  "CHR ''?'' \<notin> set r \<Longrightarrow> parse_query url r = (url\<lparr>RawQuery := Some []\<rparr>, r)"
  by (auto simp: parse_query_def Let_def strings_cut_char_notin strings_count_char
      count_list_notin)

text \<open>
  C6. For every input on which \<open>parse\<close> succeeds: if the remainder after the scheme ends
  with \<open>?\<close> and contains exactly one \<open>?\<close>, the result has \<open>forceQuery\<close> true and an empty
  \<open>rawQuery\<close> (the field is left unassigned); otherwise \<open>forceQuery\<close> is not set and
  \<open>rawQuery\<close> is the text after the first \<open>?\<close>. In every successful result \<open>forceQuery\<close>
  implies an empty \<open>rawQuery\<close>. The split itself, on a text \<open>p\<close> without \<open>?\<close>: \<open>p?\<close> sets
  the flag and leaves \<open>p\<close>; \<open>p?q\<close> with \<open>q\<close> not empty stores \<open>q\<close> and leaves \<open>p\<close>; \<open>p\<close>
  alone stores the empty query and leaves \<open>p\<close>.
\<close>

theorem parse_forceQuery_rawQuery:
  assumes "parse X rawURL viaRequest = Inr u"
  shows "(forceQuery u \<longrightarrow> rawQuery u = [] \<and> RawQuery u = None) \<and>
     (\<forall>sch. getScheme rawURL = Inr sch \<longrightarrow>
        (if endsWith (Scheme.Path sch) ''?'' \<and> strings_count (Scheme.Path sch) ''?'' = 1
         then forceQuery u \<and> rawQuery u = []
         else \<not> forceQuery u \<and>
              rawQuery u = after (strings_cut (Scheme.Path sch) ''?''))) \<and>
     (\<forall>url p q.
        CHR ''?'' \<notin> set p \<longrightarrow>
          parse_query url (p @ ''?'') = (url\<lparr>ForceQuery := Some True\<rparr>, p) \<and>
          (q \<noteq> [] \<longrightarrow> parse_query url (p @ ''?'' @ q) = (url\<lparr>RawQuery := Some q\<rparr>, p)) \<and>
          parse_query url p = (url\<lparr>RawQuery := Some []\<rparr>, p))"
proof -
  let ?u0 = "emptyURL\<lparr>URL.Scheme := Some []\<rparr>"
  have star: "rawURL = ''*'' \<Longrightarrow> ForceQuery u = None"
    using assms by (auto simp: parse_def emptyURL_def split: if_splits)
  have starq: "rawURL = ''*'' \<Longrightarrow> RawQuery u = None"
    using assms by (auto simp: parse_def emptyURL_def split: if_splits)
  have fields: "rawURL \<noteq> ''*'' \<Longrightarrow>
      ForceQuery u = ForceQuery (fst (parse_query ?u0 rawURL)) \<and>
      RawQuery u = RawQuery (fst (parse_query ?u0 rawURL))"
    using parse_query_fields[OF assms] by simp
  have branch: "rawURL \<noteq> ''*'' \<Longrightarrow>
      (if endsWith rawURL ''?'' \<and> strings_count rawURL ''?'' = 1
       then ForceQuery u = Some True \<and> RawQuery u = None
       else ForceQuery u = None \<and> RawQuery u = Some (after (strings_cut rawURL ''?'')))"
    using fields by (simp add: parse_query_def Let_def emptyURL_def)
  have inv: "forceQuery u \<longrightarrow> rawQuery u = [] \<and> RawQuery u = None"
  proof (cases "rawURL = ''*''")
    case True
    with star show ?thesis by (simp add: forceQuery_def)
  next
    case False
    with branch show ?thesis
      by (auto simp: forceQuery_def rawQuery_def split: if_splits)
  qed
  have b2: "\<forall>sch. getScheme rawURL = Inr sch \<longrightarrow>
        (if endsWith (Scheme.Path sch) ''?'' \<and> strings_count (Scheme.Path sch) ''?'' = 1
         then forceQuery u \<and> rawQuery u = []
         else \<not> forceQuery u \<and>
              rawQuery u = after (strings_cut (Scheme.Path sch) ''?''))"
  proof (cases "rawURL = ''*''")
    case True
    have "\<not> endsWith ''*'' ''?''" by (simp add: endsWith_char)
    moreover have "after (strings_cut ''*'' ''?'') = []"
      by (simp add: strings_cut_char_after)
    moreover from True star starq have "\<not> forceQuery u \<and> rawQuery u = []"
      by (simp add: forceQuery_def rawQuery_def)
    ultimately show ?thesis using True by (simp add: getScheme_no_scheme)
  next
    case False
    with branch show ?thesis
      by (auto simp: getScheme_no_scheme forceQuery_def rawQuery_def split: if_splits)
  qed
  from inv b2 show ?thesis
    by (simp add: parse_query_force parse_query_split parse_query_none)
qed

text \<open>The theorem at \<open>/a?\<close>, on which \<open>parse\<close> succeeds.\<close>

theorem parse_forceQuery_rawQuery_witness:
  "parse std ''/a?'' False =
     Inr \<lparr>URL.Scheme = Some [], Opaque = None, URL.User = None, Host = None,
          URL.Path = Some ''/a'', RawPath = None, OmitHost = None,
          ForceQuery = Some True, RawQuery = None, Fragment = None,
          RawFragment = None\<rparr> \<and>
   forceQuery \<lparr>URL.Scheme = Some [], Opaque = None, URL.User = None, Host = None,
          URL.Path = Some ''/a'', RawPath = None, OmitHost = None,
          ForceQuery = Some True, RawQuery = None, Fragment = None,
          RawFragment = None\<rparr> \<and>
   rawQuery \<lparr>URL.Scheme = Some [], Opaque = None, URL.User = None, Host = None,
          URL.Path = Some ''/a'', RawPath = None, OmitHost = None,
          ForceQuery = Some True, RawQuery = None, Fragment = None,
          RawFragment = None\<rparr> = []"
proof -
  have h: "parse std ''/a?'' False =
     Inr \<lparr>URL.Scheme = Some [], Opaque = None, URL.User = None, Host = None,
          URL.Path = Some ''/a'', RawPath = None, OmitHost = None,
          ForceQuery = Some True, RawQuery = None, Fragment = None,
          RawFragment = None\<rparr>"
    by code_simp
  have g: "getScheme ''/a?'' = Inr \<lparr>Scheme.Scheme = [], Scheme.Path = ''/a?''\<rparr>"
    by code_simp
  have e: "endsWith ''/a?'' ''?'' \<and> strings_count ''/a?'' ''?'' = 1" by code_simp
  from parse_forceQuery_rawQuery [OF h] g e h show ?thesis
    by simp
qed

section \<open>Bracketed hosts\<close>

lemma indexOf_occurrence:
  "indexOf s sep = int k \<Longrightarrow>
     k \<le> length s \<and> hasPrefix (drop k s) sep \<and> (\<forall>j<k. \<not> hasPrefix (drop j s) sep)"
proof (induction s arbitrary: k)
  case Nil
  then show ?case by (auto simp: hasPrefix_def slice_def split: if_splits)
next
  case (Cons c cs)
  show ?case
  proof (cases "hasPrefix (c # cs) sep")
    case True
    with Cons.prems show ?thesis by simp
  next
    case False
    with Cons.prems have nn: "\<not> indexOf cs sep < 0" and k: "int k = indexOf cs sep + 1"
      by (auto simp: Let_def split: if_splits)
    define k' where "k' = nat (indexOf cs sep)"
    with nn k have k': "k = Suc k'" "indexOf cs sep = int k'"
      by auto
    from Cons.IH[OF k'(2)] have ih: "k' \<le> length cs" "hasPrefix (drop k' cs) sep"
      "\<forall>j<k'. \<not> hasPrefix (drop j cs) sep" by auto
    have "\<And>j. j < k \<Longrightarrow> \<not> hasPrefix (drop j (c # cs)) sep"
    proof -
      fix j assume "j < k"
      show "\<not> hasPrefix (drop j (c # cs)) sep"
      proof (cases j)
        case 0
        with False show ?thesis by simp
      next
        case (Suc j')
        with \<open>j < k\<close> k' ih(3) show ?thesis by simp
      qed
    qed
    with ih k' show ?thesis by simp
  qed
qed

lemma slice_prefix: "slice (a @ b) 0 (length a) = a"
  by (simp add: slice_def)

text \<open>
  C3, as the code has it. For every \<open>hostPort\<close> that starts with \<open>[\<close>: without a \<open>]\<close>,
  \<open>parseHost\<close> fails with \<open>MISSING_RBRACKET_IN_HOST\<close>; otherwise the text after the last
  \<open>]\<close> must satisfy \<open>validOptionalPort\<close> or \<open>parseHost\<close> fails with
  \<open>INVALID_HOST_PORT\<close>; and when \<open>%25\<close> occurs before the last \<open>]\<close>, at first index \<open>k\<close>,
  the result is the text before \<open>k\<close> decoded in Host context, the text from \<open>k\<close> to the
  \<open>]\<close> decoded in Zone context, and the text from the \<open>]\<close> on decoded in Host context,
  concatenated in that order, the first decode error being the result. The brackets and the
  port stay in the host: \<open>parseHost("[fe80::1%25en0]:8080")\<close> is \<open>[fe80::1%en0]:8080\<close> (the
  witness). What \<open>Parse\<close> stores for that input is not part of this statement.
\<close>

theorem parseHost_bracketed:
  assumes "hasPrefix host ''[''"
  shows "(CHR '']'' \<notin> set host \<longrightarrow>
            parseHost X host = Inl (NamedError ''MISSING_RBRACKET_IN_HOST'' ''missing ']' in host'')) \<and>
         (\<forall>pre post. host = pre @ '']'' @ post \<and> CHR '']'' \<notin> set post \<longrightarrow>
            (\<not> validOptionalPort post \<longrightarrow>
               parseHost X host =
                 Inl (NamedError ''INVALID_HOST_PORT'' (''invalid port '' @ post @ '' after host''))) \<and>
            (validOptionalPort post \<longrightarrow>
               (\<forall>k. indexOf pre ''%25'' = int k \<longrightarrow>
                  hasPrefix (drop k pre) ''%25'' \<and>
                  parseHost X host =
                    (case unescape X (take k pre) encodeHost of
                       Inl e \<Rightarrow> Inl e
                     | Inr host1 \<Rightarrow>
                    (case unescape X (drop k pre) encodeZone of
                       Inl e \<Rightarrow> Inl e
                     | Inr host2 \<Rightarrow>
                    (case unescape X ('']'' @ post) encodeHost of
                       Inl e \<Rightarrow> Inl e
                     | Inr host3 \<Rightarrow> Inr (host1 @ host2 @ host3)))))))"
proof (intro conjI impI allI)
  assume "CHR '']'' \<notin> set host"
  with assms show "parseHost X host =
      Inl (NamedError ''MISSING_RBRACKET_IN_HOST'' ''missing ']' in host'')"
    by (simp add: parseHost_def lastIndexOf_char_notin)
next
  fix pre post
  assume h: "host = pre @ '']'' @ post \<and> CHR '']'' \<notin> set post"
  then have li: "lastIndexOf host '']'' = int (length pre)"
    using lastIndexOf_char_split[of "CHR '']''" post pre] by simp
  from h have cp: "slice_from host (nat (int (length pre)) + 1) = post"
    by (simp add: slice_from_def)
  {
    assume "\<not> validOptionalPort post"
    with assms li cp show "parseHost X host =
        Inl (NamedError ''INVALID_HOST_PORT'' (''invalid port '' @ post @ '' after host''))"
      by (simp add: parseHost_def Let_def)
  }
  {
    fix k
    assume v: "validOptionalPort post" and z: "indexOf pre ''%25'' = int k"
    from indexOf_occurrence[OF z] have kl: "k \<le> length pre"
      and occ: "hasPrefix (drop k pre) ''%25''" by auto
    show "hasPrefix (drop k pre) ''%25''" by (rule occ)
    from h have s1: "slice host 0 (nat (int (length pre))) = pre"
      by (simp add: slice_def)
    from h kl have s2: "slice host 0 k = take k pre"
      by (simp add: slice_def)
    from h kl have s3: "slice host k (length pre) = drop k pre"
      by (simp add: slice_def)
    from h have s4: "slice_from host (length pre) = '']'' @ post"
      by (simp add: slice_from_def)
    from assms li cp v z s1 s2 s3 s4
    show "parseHost X host =
        (case unescape X (take k pre) encodeHost of
           Inl e \<Rightarrow> Inl e
         | Inr host1 \<Rightarrow>
        (case unescape X (drop k pre) encodeZone of
           Inl e \<Rightarrow> Inl e
         | Inr host2 \<Rightarrow>
        (case unescape X ('']'' @ post) encodeHost of
           Inl e \<Rightarrow> Inl e
         | Inr host3 \<Rightarrow> Inr (host1 @ host2 @ host3))))"
      by (simp add: parseHost_def Let_def cong: sum.case_cong)
  }
qed

text \<open>The theorem at \<open>[fe80::1%25en0]:8080\<close>.\<close>

theorem parseHost_bracketed_witness:
  "hasPrefix ''[fe80::1%25en0]:8080'' ''['' \<and>
   ''[fe80::1%25en0]:8080'' = ''[fe80::1%25en0'' @ '']'' @ '':8080'' \<and>
   CHR '']'' \<notin> set '':8080'' \<and> validOptionalPort '':8080'' \<and>
   indexOf ''[fe80::1%25en0'' ''%25'' = int 8 \<and>
   parseHost std ''[fe80::1%25en0]:8080'' = Inr ''[fe80::1%en0]:8080''"
proof -
  have h1: "hasPrefix ''[fe80::1%25en0]:8080'' ''[''" by code_simp
  have h2: "''[fe80::1%25en0]:8080'' = ''[fe80::1%25en0'' @ '']'' @ '':8080'' \<and>
      CHR '']'' \<notin> set '':8080''" by simp
  have h3: "validOptionalPort '':8080''" by code_simp
  have h4: "indexOf ''[fe80::1%25en0'' ''%25'' = int 8" by code_simp
  have u1: "unescape std (take 8 ''[fe80::1%25en0'') encodeHost = Inr ''[fe80::1''" by code_simp
  have u2: "unescape std (drop 8 ''[fe80::1%25en0'') encodeZone = Inr ''%en0''" by code_simp
  have u3: "unescape std ('']'' @ '':8080'') encodeHost = Inr '']:8080''" by code_simp
  from parseHost_bracketed[OF h1, of std] h2 h3 h4
  have "parseHost std ''[fe80::1%25en0]:8080'' =
        (case unescape std (take 8 ''[fe80::1%25en0'') encodeHost of
           Inl e \<Rightarrow> Inl e
         | Inr host1 \<Rightarrow>
        (case unescape std (drop 8 ''[fe80::1%25en0'') encodeZone of
           Inl e \<Rightarrow> Inl e
         | Inr host2 \<Rightarrow>
        (case unescape std ('']'' @ '':8080'') encodeHost of
           Inl e \<Rightarrow> Inl e
         | Inr host3 \<Rightarrow> Inr (host1 @ host2 @ host3))))"
    by blast
  then have "parseHost std ''[fe80::1%25en0]:8080'' = Inr ''[fe80::1%en0]:8080''"
    by (simp only: u1 u2 u3 sum.case) simp
  with h1 h2 h3 h4 show ?thesis by blast
qed

text \<open>
  The claim as stated fails at its own example: \<open>Parse("http://[fe80::1%25en0]:8080/")\<close>
  returns an error, and the host parser does not return \<open>fe80::1%en0\<close> for the authority of
  that input.
\<close>

theorem parseHost_zone_example_counterexample:
  "Parse std ''http://[fe80::1%25en0]:8080/'' =
     Inl (OpError ''parse'' ''http://[fe80::1%25en0]:8080/''
            (NamedError ''PATH_UNEXPECTED_COLON''
               ''first path segment in URL cannot contain colon'')) \<and>
   parseHost std ''[fe80::1%25en0]:8080'' \<noteq> Inr ''fe80::1%en0''"
  by code_simp

section \<open>The authority\<close>

text \<open>
  C4. For every authority string: without an \<open>@\<close> the whole string is parsed as the host and
  no userinfo is produced; otherwise the text after the last \<open>@\<close> is the host and the text
  before it is the userinfo, and a userinfo with a \<open>:\<close> is split at its first \<open>:\<close> into
  username and password, each decoded on its own in UserPassword context, the decode error of
  either being the result of \<open>parseAuthority\<close>. (The host is parsed first and the userinfo is
  checked by \<open>validUserinfo\<close> before it is decoded; the theorem gives the whole result.)
\<close>

theorem parseAuthority_split:
  "(CHR ''@'' \<notin> set authority \<longrightarrow>
      parseAuthority X authority =
        (case parseHost X authority of Inl e \<Rightarrow> Inl e | Inr host \<Rightarrow> Inr (None, host))) \<and>
   (\<forall>userinfo h. authority = userinfo @ ''@'' @ h \<and> CHR ''@'' \<notin> set h \<longrightarrow>
      parseAuthority X authority =
        (case parseHost X h of
           Inl e \<Rightarrow> Inl e
         | Inr host \<Rightarrow>
             if \<not> validUserinfo X userinfo then Inl (ErrorsNew ''net/url: invalid userinfo'')
             else if CHR '':'' \<notin> set userinfo then
               (case unescape X userinfo encodeUserPassword of
                  Inl e \<Rightarrow> Inl e
                | Inr username \<Rightarrow> Inr (Some (Userinfo.User username), host))
             else
               (case unescape X (takeWhile (\<lambda>c. c \<noteq> CHR '':'') userinfo) encodeUserPassword of
                  Inl e \<Rightarrow> Inl e
                | Inr username \<Rightarrow>
                (case unescape X (tl (dropWhile (\<lambda>c. c \<noteq> CHR '':'') userinfo))
                        encodeUserPassword of
                   Inl e \<Rightarrow> Inl e
                 | Inr password \<Rightarrow> Inr (Some (UserPassword username password), host)))) \<and>
      (\<forall>username password.
         userinfo = username @ '':'' @ password \<and> CHR '':'' \<notin> set username \<longrightarrow>
           takeWhile (\<lambda>c. c \<noteq> CHR '':'') userinfo = username \<and>
           tl (dropWhile (\<lambda>c. c \<noteq> CHR '':'') userinfo) = password))"
proof (intro conjI impI allI)
  assume "CHR ''@'' \<notin> set authority"
  then show "parseAuthority X authority =
        (case parseHost X authority of Inl e \<Rightarrow> Inl e | Inr host \<Rightarrow> Inr (None, host))"
    by (simp add: parseAuthority_def lastIndexOf_char_notin Let_def cong: sum.case_cong)
next
  fix userinfo h
  assume a: "authority = userinfo @ ''@'' @ h \<and> CHR ''@'' \<notin> set h"
  then have li: "lastIndexOf authority ''@'' = int (length userinfo)"
    using lastIndexOf_char_split[of "CHR ''@''" h userinfo] by simp
  from a have s1: "slice_from authority (Suc (length userinfo)) = h"
    by (simp add: slice_from_def)
  from a have s2: "slice authority 0 (length userinfo) = userinfo"
    by (simp add: slice_def)
  have c: "strings_Contains userinfo '':'' \<longleftrightarrow> CHR '':'' \<in> set userinfo"
    by (simp add: strings_Contains_def indexOf_char)
  show "parseAuthority X authority =
        (case parseHost X h of
           Inl e \<Rightarrow> Inl e
         | Inr host \<Rightarrow>
             if \<not> validUserinfo X userinfo then Inl (ErrorsNew ''net/url: invalid userinfo'')
             else if CHR '':'' \<notin> set userinfo then
               (case unescape X userinfo encodeUserPassword of
                  Inl e \<Rightarrow> Inl e
                | Inr username \<Rightarrow> Inr (Some (Userinfo.User username), host))
             else
               (case unescape X (takeWhile (\<lambda>c. c \<noteq> CHR '':'') userinfo) encodeUserPassword of
                  Inl e \<Rightarrow> Inl e
                | Inr username \<Rightarrow>
                (case unescape X (tl (dropWhile (\<lambda>c. c \<noteq> CHR '':'') userinfo))
                        encodeUserPassword of
                   Inl e \<Rightarrow> Inl e
                 | Inr password \<Rightarrow> Inr (Some (UserPassword username password), host))))"
    by (simp add: parseAuthority_def li s1 s2 c Let_def strings_cut_char_before
        strings_cut_char_after cong: sum.case_cong if_cong)
next
  fix userinfo h username password
  assume "userinfo = username @ '':'' @ password \<and> CHR '':'' \<notin> set username"
  then show "takeWhile (\<lambda>c. c \<noteq> CHR '':'') userinfo = username"
    by (simp add: takeWhile_neq_split)
next
  fix userinfo h username password
  assume "userinfo = username @ '':'' @ password \<and> CHR '':'' \<notin> set username"
  then show "tl (dropWhile (\<lambda>c. c \<noteq> CHR '':'') userinfo) = password"
    by (simp add: dropWhile_neq_split)
qed

text \<open>The theorem at \<open>a@b:c%3Ad@h:80\<close>: the last \<open>@\<close>, the first \<open>:\<close>, both parts decoded.\<close>

theorem parseAuthority_split_witness:
  "''a@b:c%3Ad@h:80'' = ''a@b:c%3Ad'' @ ''@'' @ ''h:80'' \<and> CHR ''@'' \<notin> set ''h:80'' \<and>
   ''a@b:c%3Ad'' = ''a@b'' @ '':'' @ ''c%3Ad'' \<and> CHR '':'' \<notin> set ''a@b'' \<and>
   parseAuthority std ''a@b:c%3Ad@h:80'' = Inr (Some (UserPassword ''a@b'' ''c:d''), ''h:80'')"
proof -
  have d: "''a@b:c%3Ad@h:80'' = ''a@b:c%3Ad'' @ ''@'' @ ''h:80'' \<and> CHR ''@'' \<notin> set ''h:80''"
    by simp
  have d2: "''a@b:c%3Ad'' = ''a@b'' @ '':'' @ ''c%3Ad'' \<and> CHR '':'' \<notin> set ''a@b''"
    by simp
  have h: "parseHost std ''h:80'' = Inr ''h:80''" by code_simp
  have v: "validUserinfo std ''a@b:c%3Ad''" by code_simp
  have c: "CHR '':'' \<in> set ''a@b:c%3Ad''" by simp
  have u1: "unescape std ''a@b'' encodeUserPassword = Inr ''a@b''" by code_simp
  have u2: "unescape std ''c%3Ad'' encodeUserPassword = Inr ''c:d''" by code_simp
  note B = conjunct2 [OF parseAuthority_split [of "''a@b:c%3Ad@h:80''" std],
      THEN spec, of "''a@b:c%3Ad''", THEN spec, of "''h:80''", THEN mp, OF d, THEN conjunct1]
  have "parseAuthority std ''a@b:c%3Ad@h:80'' =
      Inr (Some (UserPassword ''a@b'' ''c:d''), ''h:80'')"
    using B by (simp add: h u1 u2 v)
  with d d2 show ?thesis by blast
qed

section \<open>Escapes in a host and in a zone\<close>

lemma unhex_less: "unhex c < 16"
  by (auto simp: unhex_def Let_def charCode_def)

lemma shift_or_add:
  assumes "y < 16"
  shows "push_bit 4 (x::nat) OR y = 16 * x + y"
proof -
  from assms have y: "take_bit 4 y = y" by (simp add: take_bit_nat_eq_self)
  have "push_bit 4 x AND take_bit 4 y = 0"
    by (auto simp: bit_eq_iff bit_simps)
  with y have "push_bit 4 x AND y = 0" by simp
  then have "push_bit 4 x + y = push_bit 4 x OR y" by (rule disjunctive_add_eq_or)
  then show ?thesis by (simp add: push_bit_eq_mult)
qed

lemma decoded_ascii_iff:
  "push_bit 4 (unhex a) OR unhex b < 0x80 \<longleftrightarrow> unhex a < 8"
  unfolding shift_or_add [OF unhex_less [of b]] using unhex_less [of b] by arith

lemma slice_append_left: "b \<le> length p \<Longrightarrow> slice (p @ r) a b = slice p a b"
  by (simp add: slice_def)

lemma unescape_scan_prefix:
  "unescape_scan X mode p i n h = Inr st \<Longrightarrow> i \<le> length p \<Longrightarrow>
     unescape_scan X mode (p @ r) i n h =
     unescape_scan X mode (p @ r) (length p) (fst st) (snd st)"
proof (induction "length p - i" arbitrary: i n h rule: less_induct)
  case less
  have step: "\<And>j n' h'. i < j \<Longrightarrow> i < length p \<Longrightarrow> j \<le> length p \<Longrightarrow>
      unescape_scan X mode p j n' h' = Inr st \<Longrightarrow>
      unescape_scan X mode (p @ r) j n' h' =
      unescape_scan X mode (p @ r) (length p) (fst st) (snd st)"
    by (rule less.hyps) (auto intro: diff_less_mono2)
  show ?case
  proof (cases "i < length p")
    case False
    with less.prems have "i = length p" by simp
    moreover from False less.prems(1) have "st = (n, h)"
      by (subst (asm) unescape_scan.simps) simp
    ultimately show ?thesis by simp
  next
    case True
    note L = unescape_scan.simps [of X mode "p @ r" i n h]
    note P = unescape_scan.simps [of X mode p i n h]
    from less.prems(1) have Q: "unescape_scan X mode p i n h = Inr st" .
    show ?thesis
    proof (cases "p ! i = CHR ''%''")
      case pct: True
      from Q True pct have ok: "i + 2 < length p" "ishex (p ! (i + 1))" "ishex (p ! (i + 2))"
        by (subst (asm) P; simp split: if_splits)+
      from Q True pct ok have nxt: "unescape_scan X mode p (i + 3) (n + 1) h = Inr st"
        by (subst (asm) P) (simp split: if_splits)
      from Q True pct ok have c1: "\<not> (mode = encodeHost \<and> unhex (p ! (i + 1)) < 8 \<and>
                    slice p i (i + 3) \<noteq> ''%25'')"
        by (subst (asm) P) (simp split: if_splits)
      from Q True pct ok have c2: "\<not> (mode = encodeZone \<and>
            (let v = push_bit 4 (unhex (p ! (i + 1))) OR unhex (p ! (i + 2)) in
             slice p i (i + 3) \<noteq> ''%25'' \<and> v \<noteq> charCode (CHR '' '') \<and>
             shouldEscape X (char_of v) encodeHost))"
        by (subst (asm) P) (simp split: if_splits)
      have e: "(p @ r) ! i = p ! i" "(p @ r) ! Suc i = p ! Suc i"
        "(p @ r) ! Suc (Suc i) = p ! Suc (Suc i)"
        "slice (p @ r) i (i + 3) = slice p i (i + 3)"
        using ok True by (simp_all add: nth_append slice_append_left)
      have "unescape_scan X mode (p @ r) i n h =
            unescape_scan X mode (p @ r) (i + 3) (n + 1) h"
        using True pct ok c1 c2 by (subst L) (auto simp: e Let_def)
      also have "\<dots> = unescape_scan X mode (p @ r) (length p) (fst st) (snd st)"
        using ok True nxt by (intro step) simp_all
      finally show ?thesis .
    next
      case npct: False
      show ?thesis
      proof (cases "p ! i = CHR ''+''")
        case plus: True
        from Q \<open>i < length p\<close> npct plus
        have nxt: "unescape_scan X mode p (i + 1) n (mode = encodeQueryComponent) = Inr st"
          by (subst (asm) P) simp
        have "unescape_scan X mode (p @ r) i n h =
            unescape_scan X mode (p @ r) (i + 1) n (mode = encodeQueryComponent)"
          using \<open>i < length p\<close> npct plus by (subst L) (simp add: nth_append)
        also have "\<dots> = unescape_scan X mode (p @ r) (length p) (fst st) (snd st)"
          using \<open>i < length p\<close> nxt by (intro step) simp_all
        finally show ?thesis .
      next
        case other: False
        from Q \<open>i < length p\<close> npct other
        have c: "\<not> ((mode = encodeHost \<or> mode = encodeZone) \<and> charCode (p ! i) < 0x80 \<and>
                 shouldEscape X (p ! i) mode)"
          by (subst (asm) P) (auto split: if_splits)
        from Q \<open>i < length p\<close> npct other c
        have nxt: "unescape_scan X mode p (i + 1) n h = Inr st"
          by (subst (asm) P) (simp split: if_splits)
        have "unescape_scan X mode (p @ r) i n h =
            unescape_scan X mode (p @ r) (i + 1) n h"
          using \<open>i < length p\<close> npct other c by (subst L) (auto simp: nth_append)
        also have "\<dots> = unescape_scan X mode (p @ r) (length p) (fst st) (snd st)"
          using \<open>i < length p\<close> nxt by (intro step) simp_all
        finally show ?thesis .
      qed
    qed
  qed
qed


lemma unescape_build_prefix:
  "unescape_scan X mode p i n h = Inr st \<Longrightarrow> i \<le> length p \<Longrightarrow>
     unescape_build mode (p @ r) i t =
     unescape_build mode (p @ r) (length p) (unescape_build mode p i t)"
proof (induction "length p - i" arbitrary: i n h t rule: less_induct)
  case less
  have step: "\<And>j n' h' t'. i < j \<Longrightarrow> i < length p \<Longrightarrow> j \<le> length p \<Longrightarrow>
      unescape_scan X mode p j n' h' = Inr st \<Longrightarrow>
      unescape_build mode (p @ r) j t' =
      unescape_build mode (p @ r) (length p) (unescape_build mode p j t')"
    by (rule less.hyps) (auto intro: diff_less_mono2)
  show ?case
  proof (cases "i < length p")
    case False
    with less.prems have "i = length p" by simp
    moreover have "unescape_build mode p (length p) t = t"
      by (subst unescape_build.simps) simp
    ultimately show ?thesis by simp
  next
    case True
    note L = unescape_build.simps [of mode "p @ r" i t]
    note B = unescape_build.simps [of mode p i t]
    note P = unescape_scan.simps [of X mode p i n h]
    from less.prems(1) have Q: "unescape_scan X mode p i n h = Inr st" .
    show ?thesis
    proof (cases "p ! i = CHR ''%''")
      case pct: True
      from Q True pct have ok: "i + 2 < length p"
        by (subst (asm) P) (simp split: if_splits)
      from Q True pct ok have nxt: "unescape_scan X mode p (i + 3) (n + 1) h = Inr st"
        by (subst (asm) P) (simp split: if_splits)
      have e: "(p @ r) ! i = p ! i" "(p @ r) ! Suc i = p ! Suc i"
        "(p @ r) ! Suc (Suc i) = p ! Suc (Suc i)"
        using ok True by (simp_all add: nth_append)
      let ?t = "t @ [char_of (push_bit 4 (unhex (p ! (i + 1))) OR unhex (p ! (i + 2)))]"
      have "unescape_build mode (p @ r) i t = unescape_build mode (p @ r) (i + 3) ?t"
        using True pct by (subst L) (simp add: e numeral_3_eq_3)
      also have "\<dots> = unescape_build mode (p @ r) (length p) (unescape_build mode p (i + 3) ?t)"
        using ok True nxt by (intro step) simp_all
      also have "unescape_build mode p (i + 3) ?t = unescape_build mode p i t"
        using True pct by (subst (2) unescape_build.simps) (simp add: numeral_3_eq_3)
      finally show ?thesis .
    next
      case npct: False
      show ?thesis
      proof (cases "p ! i = CHR ''+''")
        case plus: True
        from Q \<open>i < length p\<close> npct plus
        have nxt: "unescape_scan X mode p (i + 1) n (mode = encodeQueryComponent) = Inr st"
          by (subst (asm) P) simp
        let ?t = "t @ (if mode = encodeQueryComponent then '' '' else ''+'')"
        have "unescape_build mode (p @ r) i t = unescape_build mode (p @ r) (i + 1) ?t"
          using \<open>i < length p\<close> npct plus by (subst L) (simp add: nth_append)
        also have "\<dots> = unescape_build mode (p @ r) (length p)
            (unescape_build mode p (i + 1) ?t)"
          using \<open>i < length p\<close> nxt by (intro step) simp_all
        also have "unescape_build mode p (i + 1) ?t = unescape_build mode p i t"
          using \<open>i < length p\<close> npct plus by (subst (2) unescape_build.simps) simp
        finally show ?thesis .
      next
        case other: False
        from Q \<open>i < length p\<close> npct other
        have nxt: "unescape_scan X mode p (i + 1) n h = Inr st"
          by (subst (asm) P) (auto split: if_splits)
        let ?t = "t @ [p ! i]"
        have "unescape_build mode (p @ r) i t = unescape_build mode (p @ r) (i + 1) ?t"
          using \<open>i < length p\<close> npct other by (subst L) (simp add: nth_append)
        also have "\<dots> = unescape_build mode (p @ r) (length p)
            (unescape_build mode p (i + 1) ?t)"
          using \<open>i < length p\<close> nxt by (intro step) simp_all
        also have "unescape_build mode p (i + 1) ?t = unescape_build mode p i t"
          using \<open>i < length p\<close> npct other by (subst (2) unescape_build.simps) simp
        finally show ?thesis .
      qed
    qed
  qed
qed

lemma unescape_scan_count_mono:
  "unescape_scan X mode p i n h = Inr st \<Longrightarrow> n \<le> fst st"
proof (induction "length p - i" arbitrary: i n h rule: less_induct)
  case less
  have step: "\<And>j n' h'. i < j \<Longrightarrow> i < length p \<Longrightarrow>
      unescape_scan X mode p j n' h' = Inr st \<Longrightarrow> n' \<le> fst st"
    by (rule less.hyps) (auto intro: diff_less_mono2)
  from less.prems show ?case
    by (subst (asm) unescape_scan.simps)
       (auto split: if_splits dest!: step[rotated 2])
qed

lemma unescape_build_identity:
  "mode \<noteq> encodeQueryComponent \<Longrightarrow> unescape_scan X mode p i n h = Inr (n, h') \<Longrightarrow>
     i \<le> length p \<Longrightarrow> unescape_build mode p i t = t @ drop i p"
proof (induction "length p - i" arbitrary: i h t rule: less_induct)
  case less
  have step: "\<And>j h'' t'. i < j \<Longrightarrow> i < length p \<Longrightarrow> j \<le> length p \<Longrightarrow>
      unescape_scan X mode p j n h'' = Inr (n, h') \<Longrightarrow>
      unescape_build mode p j t' = t' @ drop j p"
    using less.prems(1) by (intro less.hyps) (auto intro: diff_less_mono2)
  note P = unescape_scan.simps [of X mode p i n h]
  show ?case
  proof (cases "i < length p")
    case False
    then show ?thesis by (subst unescape_build.simps) simp
  next
    case True
    have d: "drop i p = p ! i # drop (Suc i) p"
      using True by (simp add: Cons_nth_drop_Suc)
    show ?thesis
    proof (cases "p ! i = CHR ''%''")
      case pct: True
      from less.prems(2) True pct
      have "unescape_scan X mode p (i + 3) (n + 1) h = Inr (n, h')"
        by (subst (asm) P) (simp split: if_splits)
      from unescape_scan_count_mono [OF this] show ?thesis by simp
    next
      case npct: False
      from less.prems(2) True npct
      have nxt: "\<exists>h''. unescape_scan X mode p (i + 1) n h'' = Inr (n, h')"
        by (subst (asm) P) (auto split: if_splits)
      then obtain h'' where nxt': "unescape_scan X mode p (i + 1) n h'' = Inr (n, h')" ..
      have "unescape_build mode p i t = unescape_build mode p (i + 1) (t @ [p ! i])"
        using True npct less.prems(1) by (subst unescape_build.simps) auto
      also have "\<dots> = (t @ [p ! i]) @ drop (i + 1) p"
        using True nxt' by (intro step) simp_all
      finally show ?thesis using d by simp
    qed
  qed
qed

lemma unescape_scan_at_escape:
  assumes "ishex a" "ishex b"
  shows "unescape_scan X mode (p @ CHR ''%'' # a # b # r) (length p) n h =
     (if mode = encodeHost \<and> unhex a < 8 \<and> [a, b] \<noteq> ''25''
      then Inl (NamedError [] [CHR ''%'', a, b])
      else if mode = encodeZone \<and> [a, b] \<noteq> ''25'' \<and>
              push_bit 4 (unhex a) OR unhex b \<noteq> 0x20 \<and>
              shouldEscape X (char_of (push_bit 4 (unhex a) OR unhex b)) encodeHost
      then Inl (NamedError [] [CHR ''%'', a, b])
      else unescape_scan X mode (p @ CHR ''%'' # a # b # r) (length p + 3) (n + 1) h)"
proof -
  let ?s = "p @ CHR ''%'' # a # b # r"
  have e: "?s ! length p = CHR ''%''" "?s ! Suc (length p) = a"
    "?s ! Suc (Suc (length p)) = b" "slice ?s (length p) (length p + 3) = [CHR ''%'', a, b]"
    by (simp_all add: nth_append slice_def)
  show ?thesis
    using assms
    by (subst unescape_scan.simps) (auto simp: e Let_def charCode_def)
qed

lemma unescape_build_at_escape:
  "unescape_build mode (p @ [CHR ''%'', a, b]) (length p) t =
     t @ [char_of (push_bit 4 (unhex a) OR unhex b)]"
proof -
  let ?s = "p @ [CHR ''%'', a, b]"
  have e: "?s ! length p = CHR ''%''" "?s ! Suc (length p) = a"
    "?s ! Suc (Suc (length p)) = b"
    by (simp_all add: nth_append)
  have "unescape_build mode ?s (length p) t =
      unescape_build mode ?s (length p + 3) (t @ [char_of (push_bit 4 (unhex a) OR unhex b)])"
    by (subst unescape_build.simps) (simp add: e numeral_3_eq_3)
  also have "\<dots> = t @ [char_of (push_bit 4 (unhex a) OR unhex b)]"
    by (subst unescape_build.simps) simp
  finally show ?thesis .
qed

lemma unescape_Inr_build:
  assumes "mode \<noteq> encodeQueryComponent" and "unescape X p mode = Inr q"
  obtains n h where "unescape_scan X mode p 0 0 False = Inr (n, h)"
    and "q = unescape_build mode p 0 []"
proof -
  from assms(2) obtain n h where sc: "unescape_scan X mode p 0 0 False = Inr (n, h)"
    by (auto simp: unescape_def split: sum.splits prod.splits)
  have "q = unescape_build mode p 0 []"
  proof (cases "n = 0 \<and> \<not> h")
    case True
    with assms(2) sc have "q = p" by (simp add: unescape_def)
    moreover from True sc have "unescape_scan X mode p 0 0 False = Inr (0, h)" by simp
    from unescape_build_identity [OF assms(1) this, of "[]"]
    have "unescape_build mode p 0 [] = p" by simp
    ultimately show ?thesis by simp
  next
    case False
    with assms(2) sc show ?thesis by (auto simp: unescape_def)
  qed
  with sc that show thesis by blast
qed

lemma unescape_escape_rejected:
  assumes ok: "unescape X p mode = Inr q" and hex: "ishex a" "ishex b"
    and bad: "mode = encodeHost \<and> unhex a < 8 \<and> [a, b] \<noteq> ''25'' \<or>
              mode = encodeZone \<and> [a, b] \<noteq> ''25'' \<and>
              push_bit 4 (unhex a) OR unhex b \<noteq> 0x20 \<and>
              shouldEscape X (char_of (push_bit 4 (unhex a) OR unhex b)) encodeHost"
  shows "unescape X (p @ [CHR ''%'', a, b] @ r) mode = Inl (NamedError [] [CHR ''%'', a, b])"
proof -
  from ok obtain n h where sc: "unescape_scan X mode p 0 0 False = Inr (n, h)"
    by (auto simp: unescape_def split: sum.splits prod.splits)
  let ?s = "p @ CHR ''%'' # a # b # r"
  have "unescape_scan X mode ?s 0 0 False = unescape_scan X mode ?s (length p) n h"
    using unescape_scan_prefix [OF sc, of "CHR ''%'' # a # b # r"] by simp
  also have "\<dots> = Inl (NamedError [] [CHR ''%'', a, b])"
    using bad by (subst unescape_scan_at_escape [OF hex]) auto
  finally show ?thesis by (simp add: unescape_def)
qed

lemma unescape_escape_accepted:
  assumes ok: "unescape X p mode = Inr q" and hex: "ishex a" "ishex b"
    and mode: "mode = encodeHost \<or> mode = encodeZone"
    and good: "\<not> (mode = encodeHost \<and> unhex a < 8 \<and> [a, b] \<noteq> ''25'')"
      "\<not> (mode = encodeZone \<and> [a, b] \<noteq> ''25'' \<and>
              push_bit 4 (unhex a) OR unhex b \<noteq> 0x20 \<and>
              shouldEscape X (char_of (push_bit 4 (unhex a) OR unhex b)) encodeHost)"
  shows "unescape X (p @ [CHR ''%'', a, b]) mode =
     Inr (q @ [char_of (push_bit 4 (unhex a) OR unhex b)])"
proof -
  from mode have nq: "mode \<noteq> encodeQueryComponent" by auto
  from unescape_Inr_build [OF nq ok] obtain n h
    where sc: "unescape_scan X mode p 0 0 False = Inr (n, h)"
      and q: "q = unescape_build mode p 0 []" by blast
  let ?s = "p @ [CHR ''%'', a, b]"
  have "unescape_scan X mode ?s 0 0 False = unescape_scan X mode ?s (length p) n h"
    using unescape_scan_prefix [OF sc, of "[CHR ''%'', a, b]"] by simp
  also have "\<dots> = unescape_scan X mode ?s (length p + 3) (n + 1) h"
    using good unescape_scan_at_escape [OF hex, of X mode p "[]" n h] by auto
  also have "\<dots> = Inr (n + 1, h)"
    by (subst unescape_scan.simps) simp
  finally have s: "unescape_scan X mode ?s 0 0 False = Inr (n + 1, h)" .
  have "unescape_build mode ?s 0 [] = unescape_build mode ?s (length p) q"
    using unescape_build_prefix [OF sc, of "[CHR ''%'', a, b]" "[]"] q by simp
  also have "\<dots> = q @ [char_of (push_bit 4 (unhex a) OR unhex b)]"
    by (rule unescape_build_at_escape)
  finally show ?thesis using s by (simp add: unescape_def)
qed

text \<open>
  C8, as the code has it. Let \<open>%ab\<close> be a well-formed escape that follows a text \<open>p\<close> which
  itself decodes without error. In Host context the escape is rejected, with the error that
  carries its three code units, when its decoded value is an ASCII byte and it is not \<open>%25\<close>,
  whatever follows it; any other escape is accepted and decodes to its byte. In Zone context
  the rule is another one: the escape is rejected only when it is not \<open>%25\<close>, its decoded byte
  is not a space, and \<open>shouldEscape\<close> flags the decoded byte in Host context; otherwise it is
  accepted and decodes to its byte.
\<close>

theorem unescape_host_zone_escape:
  assumes "unescape X p mode = Inr q" and "ishex a" and "ishex b"
  shows
    "(mode = encodeHost \<longrightarrow>
        (if push_bit 4 (unhex a) OR unhex b < 0x80 \<and> [a, b] \<noteq> ''25''
         then unescape X (p @ [CHR ''%'', a, b] @ r) mode =
                Inl (NamedError [] [CHR ''%'', a, b])
         else unescape X (p @ [CHR ''%'', a, b]) mode =
                Inr (q @ [char_of (push_bit 4 (unhex a) OR unhex b)]))) \<and>
     (mode = encodeZone \<longrightarrow>
        (if [a, b] \<noteq> ''25'' \<and> push_bit 4 (unhex a) OR unhex b \<noteq> 0x20 \<and>
            shouldEscape X (char_of (push_bit 4 (unhex a) OR unhex b)) encodeHost
         then unescape X (p @ [CHR ''%'', a, b] @ r) mode =
                Inl (NamedError [] [CHR ''%'', a, b])
         else unescape X (p @ [CHR ''%'', a, b]) mode =
                Inr (q @ [char_of (push_bit 4 (unhex a) OR unhex b)])))"
proof (intro conjI impI)
  assume m: "mode = encodeHost"
  let ?c = "push_bit 4 (unhex a) OR unhex b < 0x80 \<and> [a, b] \<noteq> ''25''"
  show "if ?c
         then unescape X (p @ [CHR ''%'', a, b] @ r) mode =
                Inl (NamedError [] [CHR ''%'', a, b])
         else unescape X (p @ [CHR ''%'', a, b]) mode =
                Inr (q @ [char_of (push_bit 4 (unhex a) OR unhex b)])"
  proof (cases ?c)
    case True
    then have "unhex a < 8" and "[a, b] \<noteq> ''25''"
      using decoded_ascii_iff [of a b] by blast+
    with m have bad: "mode = encodeHost \<and> unhex a < 8 \<and> [a, b] \<noteq> ''25'' \<or>
              mode = encodeZone \<and> [a, b] \<noteq> ''25'' \<and>
              push_bit 4 (unhex a) OR unhex b \<noteq> 0x20 \<and>
              shouldEscape X (char_of (push_bit 4 (unhex a) OR unhex b)) encodeHost"
      by blast
    show ?thesis
      by (subst if_P [OF True]) (rule unescape_escape_rejected [OF assms bad])
  next
    case False
    then have g1: "\<not> (mode = encodeHost \<and> unhex a < 8 \<and> [a, b] \<noteq> ''25'')"
      using decoded_ascii_iff [of a b] by blast
    from m have g2: "\<not> (mode = encodeZone \<and> [a, b] \<noteq> ''25'' \<and>
              push_bit 4 (unhex a) OR unhex b \<noteq> 0x20 \<and>
              shouldEscape X (char_of (push_bit 4 (unhex a) OR unhex b)) encodeHost)"
      by blast
    from m have md: "mode = encodeHost \<or> mode = encodeZone" by blast
    show ?thesis
      by (subst if_not_P [OF False]) (rule unescape_escape_accepted [OF assms md g1 g2])
  qed
next
  assume m: "mode = encodeZone"
  let ?c = "[a, b] \<noteq> ''25'' \<and> push_bit 4 (unhex a) OR unhex b \<noteq> 0x20 \<and>
            shouldEscape X (char_of (push_bit 4 (unhex a) OR unhex b)) encodeHost"
  show "if ?c
         then unescape X (p @ [CHR ''%'', a, b] @ r) mode =
                Inl (NamedError [] [CHR ''%'', a, b])
         else unescape X (p @ [CHR ''%'', a, b]) mode =
                Inr (q @ [char_of (push_bit 4 (unhex a) OR unhex b)])"
  proof (cases ?c)
    case True
    with m have bad: "mode = encodeHost \<and> unhex a < 8 \<and> [a, b] \<noteq> ''25'' \<or>
              mode = encodeZone \<and> [a, b] \<noteq> ''25'' \<and>
              push_bit 4 (unhex a) OR unhex b \<noteq> 0x20 \<and>
              shouldEscape X (char_of (push_bit 4 (unhex a) OR unhex b)) encodeHost"
      by blast
    show ?thesis
      by (subst if_P [OF True]) (rule unescape_escape_rejected [OF assms bad])
  next
    case False
    from m have g1: "\<not> (mode = encodeHost \<and> unhex a < 8 \<and> [a, b] \<noteq> ''25'')"
      by simp
    from False have g2: "\<not> (mode = encodeZone \<and> [a, b] \<noteq> ''25'' \<and>
              push_bit 4 (unhex a) OR unhex b \<noteq> 0x20 \<and>
              shouldEscape X (char_of (push_bit 4 (unhex a) OR unhex b)) encodeHost)"
      by blast
    from m have md: "mode = encodeHost \<or> mode = encodeZone" by blast
    show ?thesis
      by (subst if_not_P [OF False]) (rule unescape_escape_accepted [OF assms md g1 g2])
  qed
qed

text \<open>The theorem at \<open>fe80%41en0\<close> in Host context.\<close>

theorem unescape_host_zone_escape_witness:
  "unescape std ''fe80'' encodeHost = Inr ''fe80'' \<and> ishex (CHR ''4'') \<and> ishex (CHR ''1'') \<and>
   unescape std (''fe80'' @ ''%41'' @ ''en0'') encodeHost = Inl (NamedError [] ''%41'')"
proof -
  have h: "unescape std ''fe80'' encodeHost = Inr ''fe80''" by code_simp
  have a: "ishex (CHR ''4'')" and b: "ishex (CHR ''1'')" by code_simp+
  have c: "push_bit 4 (unhex (CHR ''4'')) OR unhex (CHR ''1'') < (0x80::nat) \<and>
      [CHR ''4'', CHR ''1''] \<noteq> ''25''" by code_simp
  note T = unescape_host_zone_escape [OF h a b, of "''en0''", THEN conjunct1, THEN mp, OF refl]
  from T have "unescape std (''fe80'' @ [CHR ''%'', CHR ''4'', CHR ''1''] @ ''en0'') encodeHost =
      Inl (NamedError [] [CHR ''%'', CHR ''4'', CHR ''1''])"
    by (simp only: c if_True simp_thms)
  then have "unescape std (''fe80'' @ ''%41'' @ ''en0'') encodeHost = Inl (NamedError [] ''%41'')"
    by simp
  with h a b show ?thesis by blast
qed

text \<open>
  The claim as stated fails in Zone context: \<open>%20\<close> and \<open>%41\<close> are well-formed, decode to
  ASCII bytes, are not \<open>%25\<close>, and are accepted.
\<close>

theorem unescape_host_zone_escape_counterexample:
  "unescape std ''%20'' encodeZone = Inr '' '' \<and>
   unescape std ''%41'' encodeZone = Inr ''A''"
  by code_simp

section \<open>The two versions of the parser\<close>

lemma parse_query_user_host:
  "URL.User (fst (parse_query url r)) = URL.User url \<and> Host (fst (parse_query url r)) = Host url"
  by (simp add: parse_query_def Let_def)

lemma setPath_erase:
  assumes "URL.User url = None" "Host url = None"
  shows "(case setPath X url p of Inl e \<Rightarrow> Inl e
          | Inr u \<Rightarrow> Inr (u\<lparr>URL.User := None, Host := None\<rparr>)) = setPath X url p"
  using assms by (cases "unescape X p encodePath") (simp_all add: setPath_def)

lemma setPath_erase_set:
  assumes "URL.User url = None" "Host url = None"
  shows "(case setPath X (url\<lparr>URL.User := a, Host := b\<rparr>) p of Inl e \<Rightarrow> Inl e
          | Inr u \<Rightarrow> Inr (u\<lparr>URL.User := None, Host := None\<rparr>)) = setPath X url p"
  using assms by (cases "unescape X p encodePath") (simp_all add: setPath_def)

lemma parse_authority_relation:
  assumes uh: "URL.User url = None" "Host url = None"
  shows "(case parse_authority X url rest v of Inl e \<Rightarrow> Inl e
          | Inr (url', rest') \<Rightarrow> setPath X url' rest') =
         (case (case parse_authority_part_000 X url rest v of Inl e \<Rightarrow> Inl e
                | Inr (url', rest') \<Rightarrow> setPath X url' rest') of
            Inl e \<Rightarrow> Inl e
          | Inr u \<Rightarrow> Inr (u\<lparr>URL.User := None, Host := None\<rparr>))"
proof (cases "(URL.Scheme url \<noteq> Some [] \<or> \<not> v \<and> \<not> hasPrefix rest ''///'') \<and>
         hasPrefix rest ''//''")
  case True
  let ?authority = "slice_from rest 2"
  let ?i = "indexOf ?authority ''/''"
  let ?rest' = "if ?i \<ge> 0 then slice_from ?authority (nat ?i) else []"
  let ?authority' = "if ?i \<ge> 0 then slice ?authority 0 (nat ?i) else ?authority"
  have A: "parse_authority X url rest v =
      (case parseAuthority X ?authority' of Inl e \<Rightarrow> Inl e
       | Inr authorityRes \<Rightarrow> Inr (url, ?rest'))"
    unfolding parse_authority_def by (subst if_P [OF True]) (simp only: Let_def)
  have B: "parse_authority_part_000 X url rest v =
      (case parseAuthority X ?authority' of Inl e \<Rightarrow> Inl e
       | Inr (user, host) \<Rightarrow> Inr (url\<lparr>URL.User := user, Host := Some host\<rparr>, ?rest'))"
    unfolding parse_authority_part_000_def by (subst if_P [OF True]) (simp only: Let_def)
  show ?thesis
  proof (cases "parseAuthority X ?authority'")
    case (Inl e)
    then show ?thesis unfolding A B by simp
  next
    case (Inr r)
    obtain user host where r: "r = (user, host)" by (cases r)
    show ?thesis
      unfolding A B Inr r
      by (simp add: setPath_erase_set [OF uh])
  qed
next
  case False
  have A: "parse_authority X url rest v =
      (if URL.Scheme url \<noteq> Some [] \<and> hasPrefix rest ''/''
       then Inr (url\<lparr>OmitHost := Some True\<rparr>, rest) else Inr (url, rest))"
    unfolding parse_authority_def by (subst if_not_P [OF False]) (rule refl)
  have B: "parse_authority_part_000 X url rest v =
      (if URL.Scheme url \<noteq> Some [] \<and> hasPrefix rest ''/''
       then Inr (url\<lparr>OmitHost := Some True\<rparr>, rest) else Inr (url, rest))"
    unfolding parse_authority_part_000_def by (subst if_not_P [OF False]) (rule refl)
  have uh': "URL.User (url\<lparr>OmitHost := Some True\<rparr>) = None"
    "Host (url\<lparr>OmitHost := Some True\<rparr>) = None"
    using uh by simp_all
  show ?thesis
    unfolding A B
    by (cases "URL.Scheme url \<noteq> Some [] \<and> hasPrefix rest ''/''")
       (simp_all add: setPath_erase [OF uh] setPath_erase [OF uh'])
qed

lemma parse_erases_authority:
  "parse X rawURL viaRequest =
     (case parse_part_000 X rawURL viaRequest of
        Inl e \<Rightarrow> Inl e
      | Inr u \<Rightarrow> Inr (u\<lparr>URL.User := None, Host := None\<rparr>))"
proof -
  let ?u0 = "emptyURL\<lparr>URL.Scheme := Some []\<rparr>"
  obtain url rest where pq: "parse_query ?u0 rawURL = (url, rest)"
    by (cases "parse_query ?u0 rawURL")
  have uh: "URL.User url = None" "Host url = None"
    using parse_query_user_host [of ?u0 rawURL] pq by (simp_all add: emptyURL_def)
  have sch: "URL.Scheme url = Some []"
    using parse_query_Scheme [of ?u0 rawURL] pq by simp
  let ?K1 = "case parse_authority X url rest viaRequest of Inl e \<Rightarrow> Inl e
          | Inr (url', rest') \<Rightarrow> setPath X url' rest'"
  let ?K2 = "case parse_authority_part_000 X url rest viaRequest of Inl e \<Rightarrow> Inl e
          | Inr (url', rest') \<Rightarrow> setPath X url' rest'"
  let ?early = "\<lambda>K. if stringContainsCTLByte rawURL
      then Inl (NamedError ''INVALID_CTRL_CHARACTER'' ''invalid control character in URL'')
      else if rawURL = [] \<and> viaRequest then Inl (NamedError ''EMPTY_URL'' ''empty url'')
      else if rawURL = ''*'' then Inr (emptyURL\<lparr>URL.Path := Some ''*''\<rparr>)
      else if \<not> (length rest > 0 \<and> rest ! 0 = CHR ''/'') then
        (if viaRequest
         then Inl (NamedError ''INVALID_REQUEST_URI'' ''invalid URI for request'')
         else if indexOf (before (strings_cut rest ''/'')) '':'' \<noteq> - 1
         then Inl (NamedError ''PATH_UNEXPECTED_COLON''
                     ''first path segment in URL cannot contain colon'')
         else K)
      else K"
  have R: "?K1 = (case ?K2 of Inl e \<Rightarrow> Inl e
          | Inr u \<Rightarrow> Inr (u\<lparr>URL.User := None, Host := None\<rparr>))"
    by (rule parse_authority_relation [OF uh])
  have P1: "parse X rawURL viaRequest = ?early ?K1"
    using pq sch
    by (simp add: parse_def getScheme_no_scheme toLowerCase_def Let_def)
  have P2: "parse_part_000 X rawURL viaRequest = ?early ?K2"
    using pq sch
    by (simp add: parse_part_000_def getScheme_no_scheme toLowerCase_def Let_def)
  have "?early ?K1 = (case ?early ?K2 of Inl e \<Rightarrow> Inl e
          | Inr u \<Rightarrow> Inr (u\<lparr>URL.User := None, Host := None\<rparr>))"
    unfolding R by (simp add: emptyURL_def)
  with P1 P2 show ?thesis by simp
qed

text \<open>
  C10. The claim: the two \<open>parse\<close> functions return equal results on every input, with
  equal \<open>Host\<close> and \<open>User\<close> when the authority branch is taken. The code: \<open>parse\<close> of
  \<open>src/index.ts\<close> returns, on every input, the result of the other \<open>parse\<close> with \<open>User\<close>
  and \<open>Host\<close> not set; on \<open>//u:p@example.com/a\<close> the second file returns the user
  \<open>u:p\<close> and the host \<open>example.com\<close>, and \<open>src/index.ts\<close> returns neither.
\<close>

theorem parse_index_drops_authority:
  "parse X rawURL viaRequest =
     (case parse_part_000 X rawURL viaRequest of
        Inl e \<Rightarrow> Inl e
      | Inr u \<Rightarrow> Inr (u\<lparr>URL.User := None, Host := None\<rparr>)) \<and>
   parse std ''//u:p@example.com/a'' False =
     Inr \<lparr>URL.Scheme = Some [], Opaque = None, URL.User = None, Host = None,
          URL.Path = Some ''/a'', RawPath = None, OmitHost = None,
          ForceQuery = None, RawQuery = Some [], Fragment = None,
          RawFragment = None\<rparr> \<and>
   parse_part_000 std ''//u:p@example.com/a'' False =
     Inr \<lparr>URL.Scheme = Some [], Opaque = None,
          URL.User = Some (UserPassword ''u'' ''p''), Host = Some ''example.com'',
          URL.Path = Some ''/a'', RawPath = None, OmitHost = None,
          ForceQuery = None, RawQuery = Some [], Fragment = None,
          RawFragment = None\<rparr>"
proof (intro conjI)
  show "parse X rawURL viaRequest =
     (case parse_part_000 X rawURL viaRequest of
        Inl e \<Rightarrow> Inl e
      | Inr u \<Rightarrow> Inr (u\<lparr>URL.User := None, Host := None\<rparr>))"
    by (rule parse_erases_authority)
qed code_simp+

end
